theory Spec2Isabelle
  imports Complex_Main
begin

section \<open>JavaScript values\<close>

text \<open>
  A JavaScript number is a binary64 floating-point number: \<open>NaN\<close>, one of the two
  infinities, or a finite value, held here as the real it denotes. The sign of zero is
  not modelled: the program never divides, and the two zeros behave alike in every
  operation it uses.
\<close>

datatype number = NaN | PInf | NInf | Fin real

datatype val = Undefined | Null | Str string | Num number

text \<open>An object with string keys: a source record, or a generated record.\<close>

type_synonym object = "string \<rightharpoonup> val"

datatype js_error = TypeError

text \<open>
  Rounding a real to binary64, to the nearest number with ties to the even significand.
  \<open>binade a n\<close> searches downwards from \<open>n\<close> for the largest \<open>E\<close> with
  \<open>2^E \<le> a * 2^1022\<close>; from \<open>n = 2045\<close> it is the exponent of \<open>a\<close> above the smallest
  one, \<open>-1022\<close>, and 0 for every \<open>a\<close> below \<open>2^-1021\<close>, which covers the subnormal
  numbers. The numbers near \<open>a\<close> are the multiples of \<open>ulp a\<close>, 52 binary digits below
  that exponent. A result of magnitude \<open>2^1024\<close> or more overflows to an infinity.
\<close>

fun binade :: "real \<Rightarrow> nat \<Rightarrow> nat" where
  "binade a 0 = 0"
| "binade a (Suc n) = (if 2 ^ Suc n \<le> a * 2 ^ 1022 then Suc n else binade a n)"

definition ulp :: "real \<Rightarrow> real" where
  "ulp a = 2 ^ binade a 2045 / 2 ^ 1074"

definition round_half_even :: "real \<Rightarrow> int" where
  "round_half_even q =
     (let f = \<lfloor>q\<rfloor>; d = q - of_int f
      in if d < 1 / 2 then f else if 1 / 2 < d then f + 1 else if even f then f else f + 1)"

definition round64 :: "real \<Rightarrow> number" where
  "round64 x =
     (let a = \<bar>x\<bar>;
          y = of_int (round_half_even (a / ulp a)) * ulp a
      in if 2 ^ 1024 \<le> y then (if 0 < x then PInf else NInf)
         else Fin (if 0 \<le> x then y else - y))"

text \<open>
  \<open>a + b\<close>, \<open>a - b\<close> and \<open>a * b\<close> on numbers: the exact result rounded to binary64;
  \<open>NaN\<close> for \<open>NaN\<close> operands, for the sum of opposite infinities and for an infinity
  times zero.
\<close>

fun num_add :: "number \<Rightarrow> number \<Rightarrow> number" where
  "num_add (Fin a) (Fin b) = round64 (a + b)"
| "num_add NaN _ = NaN"
| "num_add _ NaN = NaN"
| "num_add PInf NInf = NaN"
| "num_add NInf PInf = NaN"
| "num_add PInf _ = PInf"
| "num_add _ PInf = PInf"
| "num_add NInf _ = NInf"
| "num_add _ NInf = NInf"

fun num_neg :: "number \<Rightarrow> number" where
  "num_neg (Fin a) = Fin (- a)"
| "num_neg PInf = NInf"
| "num_neg NInf = PInf"
| "num_neg NaN = NaN"

definition num_sub :: "number \<Rightarrow> number \<Rightarrow> number" where
  "num_sub a b = num_add a (num_neg b)"

text \<open>The sign of a number that is not \<open>NaN\<close>: 1, 0 or -1.\<close>

fun num_sign :: "number \<Rightarrow> int" where
  "num_sign (Fin a) = (if 0 < a then 1 else if a < 0 then - 1 else 0)"
| "num_sign PInf = 1"
| "num_sign NInf = - 1"
| "num_sign NaN = 0"

fun num_mul :: "number \<Rightarrow> number \<Rightarrow> number" where
  "num_mul (Fin a) (Fin b) = round64 (a * b)"
| "num_mul NaN _ = NaN"
| "num_mul _ NaN = NaN"
| "num_mul a b =
     (if num_sign a * num_sign b = 0 then NaN
      else if 0 < num_sign a * num_sign b then PInf else NInf)"

text \<open>\<open>a < b\<close>: false as soon as one side is \<open>NaN\<close>.\<close>

fun num_less :: "number \<Rightarrow> number \<Rightarrow> bool" where
  "num_less (Fin a) (Fin b) = (a < b)"
| "num_less (Fin a) PInf = True"
| "num_less NInf (Fin b) = True"
| "num_less NInf PInf = True"
| "num_less _ _ = False"

text \<open>\<open>Math.floor\<close>: the floor of a binary64 number is one, so nothing is rounded.\<close>

fun Math_floor :: "number \<Rightarrow> number" where
  "Math_floor (Fin a) = Fin (of_int \<lfloor>a\<rfloor>)"
| "Math_floor n = n"

fun isNaN :: "number \<Rightarrow> bool" where
  "isNaN NaN = True"
| "isNaN _ = False"

text \<open>
  \<open>i % n\<close> for a loop counter \<open>i\<close> and an array length \<open>n\<close>, both non-negative
  integers: \<open>NaN\<close> when \<open>n\<close> is zero.
\<close>

definition rem_length :: "nat \<Rightarrow> nat \<Rightarrow> number" where
  "rem_length i n = (if n = 0 then NaN else Fin (real (i mod n)))"

text \<open>
  \<open>list[k]\<close>: the element when \<open>k\<close> is an integer within the array, \<open>undefined\<close>
  otherwise (also for \<open>NaN\<close>, an infinity, a fraction or a negative number, which name
  no element).
\<close>

definition element_at :: "val list \<Rightarrow> number \<Rightarrow> val" where
  "element_at l k =
     (case k of
        Fin x \<Rightarrow> if 0 \<le> x \<and> x = of_int \<lfloor>x\<rfloor> \<and> nat \<lfloor>x\<rfloor> < length l
                then l ! nat \<lfloor>x\<rfloor> else Undefined
      | _ \<Rightarrow> Undefined)"

text \<open>
  \<open>s.charAt(k)\<close>: the position is truncated to an integer (\<open>NaN\<close> counts as 0); the
  result is the one-character string at that position, or the empty string outside
  the string, where the infinities are.
\<close>

definition charAt :: "string \<Rightarrow> number \<Rightarrow> string" where
  "charAt s k =
     (case k of
        NaN \<Rightarrow> (if 0 < length s then [s ! 0] else [])
      | Fin x \<Rightarrow>
          (let p = (if 0 \<le> x then \<lfloor>x\<rfloor> else \<lceil>x\<rceil>)
           in if 0 \<le> p \<and> nat p < length s then [s ! nat p] else [])
      | _ \<Rightarrow> [])"

text \<open>
  A field read as a number or as text. An absent field is \<open>undefined\<close>: in arithmetic
  and in \<open>i < length\<close> it behaves as \<open>NaN\<close>, and \<open>undefined + "abc"\<close> is the text
  \<open>"undefinedabc"\<close>.
\<close>

fun field_number :: "number option \<Rightarrow> number" where
  "field_number None = NaN"
| "field_number (Some n) = n"

fun field_string :: "string option \<Rightarrow> string" where
  "field_string None = ''undefined''"
| "field_string (Some s) = s"

section \<open>The random source\<close>

text \<open>
  \<open>Math.random()\<close> is modelled by a fixed sequence of samples and the position of the
  next one; a call advances the position and returns the sample cut to 53 binary
  digits, a multiple of \<open>2^-53\<close> and so a binary64 number, as the engines produce their
  draws. The real function only returns draws \<open>r\<close> with \<open>0 \<le> r < 1\<close>; theorems that
  need this assume it of the samples.
\<close>

type_synonym rng = "nat \<Rightarrow> real"

definition Math_random :: "rng \<Rightarrow> nat \<Rightarrow> number \<times> nat" where
  "Math_random rng k = (Fin (of_int \<lfloor>rng k * 2 ^ 53\<rfloor> / 2 ^ 53), Suc k)"

text \<open>The random source that returns the same sample every time.\<close>

definition constant_rng :: "real \<Rightarrow> rng" where
  "constant_rng r k = r"

section \<open>Value generators\<close>

definition getRandomNumber :: "number \<Rightarrow> number \<Rightarrow> rng \<Rightarrow> nat \<Rightarrow> number \<times> nat" where
  "getRandomNumber min' max' rng k =
     (let (r, k') = Math_random rng k
      in (num_add (Math_floor (num_mul r (num_add (num_sub max' min') (Fin 1)))) min', k'))"

definition chars :: string where
  "chars = ''ABCDEFGHIJKLMNOPQRSTUVWXYZabcdefghijklmnopqrstuvwxyz0123456789''"

text \<open>
  The loop of \<open>getRandomString\<close>, from counter \<open>i\<close> with the text built so far. With the
  length \<open>Infinity\<close> the condition never fails and the loop does not return: the
  result is \<open>None\<close>. The counter of a loop is held as a natural number; it is the
  binary64 number of the program as long as it is at most \<open>2^53\<close>, which is more
  iterations than a string or an array has room for.
\<close>

partial_function (option) getRandomString_loop ::
  "number \<Rightarrow> nat \<Rightarrow> string \<Rightarrow> rng \<Rightarrow> nat \<Rightarrow> (string \<times> nat) option" where
  "getRandomString_loop length' i result rng k =
     (if num_less (Fin (real i)) length' then
        (let (r, k') = Math_random rng k
         in getRandomString_loop length' (Suc i)
              (result @ charAt chars (Math_floor (num_mul r (Fin (real (length chars))))))
              rng k')
      else Some (result, k))"

definition getRandomString :: "number \<Rightarrow> rng \<Rightarrow> nat \<Rightarrow> (string \<times> nat) option" where
  "getRandomString length' rng k = getRandomString_loop length' 0 [] rng k"

definition getRandomStringWithPrefix ::
  "string \<Rightarrow> number \<Rightarrow> rng \<Rightarrow> nat \<Rightarrow> (string \<times> nat) option" where
  "getRandomStringWithPrefix prefix length' rng k =
     (case getRandomString length' rng k of
        None \<Rightarrow> None
      | Some (s, k') \<Rightarrow> Some (prefix @ s, k'))"

definition getRandomFromList :: "val list \<Rightarrow> rng \<Rightarrow> nat \<Rightarrow> val \<times> nat" where
  "getRandomFromList list rng k =
     (let (r, k') = Math_random rng k
      in (element_at list (Math_floor (num_mul r (Fin (real (length list))))), k'))"

section \<open>The value pool of a column\<close>

text \<open>\<open>record[header]\<close>: \<open>undefined\<close> when the record has no such key.\<close>

definition property :: "object \<Rightarrow> string \<Rightarrow> val" where
  "property record key = (case record key of None \<Rightarrow> Undefined | Some v \<Rightarrow> v)"

text \<open>
  \<open>[...new Set(values)]\<close>: a \<open>Set\<close> keeps its members in the order of their first
  insertion, and adding a member it already has changes nothing.
\<close>

definition Set_add :: "'a list \<Rightarrow> 'a \<Rightarrow> 'a list" where
  "Set_add members x = (if x \<in> set members then members else members @ [x])"

definition new_Set :: "'a list \<Rightarrow> 'a list" where
  "new_Set values = foldl Set_add [] values"

definition getUniqueValuesFromColumn :: "object list \<Rightarrow> string \<Rightarrow> val list" where
  "getUniqueValuesFromColumn records header =
     (let values = map (\<lambda>record. property record header) records
      in filter (\<lambda>val. val \<noteq> Undefined \<and> val \<noteq> Null \<and> val \<noteq> Str [])
           (new_Set values))"

text \<open>The position of the first occurrence of a value in a list (its length if there is none).\<close>

definition first_index :: "'a \<Rightarrow> 'a list \<Rightarrow> nat" where
  "first_index x xs = length (takeWhile (\<lambda>y. y \<noteq> x) xs)"

text \<open>
  What holds of the members of a \<open>Set\<close> after the values \<open>seen\<close> have been added: no
  member twice, exactly the values seen, in the order of their first occurrences.
\<close>

definition Set_of :: "'a list \<Rightarrow> 'a list \<Rightarrow> bool" where
  "Set_of members seen =
     (distinct members \<and> set members = set seen
      \<and> sorted_wrt (\<lambda>a b. first_index a seen < first_index b seen) members)"

section \<open>Column configurations and the generation loop\<close>

text \<open>
  A column configuration is an object with the fields \<open>header\<close> and \<open>type\<close> and, depending
  on the type, some of \<open>min\<close>, \<open>max\<close>, \<open>list\<close>, \<open>length\<close>, \<open>prefix\<close>, \<open>start\<close>, \<open>step\<close>;
  \<open>None\<close> is a field the object does not have.
\<close>

record column_config =
  header :: string
  type :: string
  min_cfg :: "number option"
  max_cfg :: "number option"
  list :: "val list option"
  length_cfg :: "number option"
  prefix :: "string option"
  start :: "number option"
  step :: "number option"

text \<open>
  The \<open>switch (config.type)\<close> of the generation loop, for row \<open>i\<close> and the record built so
  far. Reading \<open>config.list.length\<close> of a configuration without a list throws a
  \<open>TypeError\<close>. The switch has no default case: any other type leaves the record as it is.
  The result is \<open>None\<close> when \<open>getRandomString\<close> does not return.
\<close>

definition switch_type ::
  "column_config \<Rightarrow> nat \<Rightarrow> object \<Rightarrow> rng \<Rightarrow> nat
     \<Rightarrow> (js_error + (object \<times> nat)) option" where
  "switch_type config i record rng k =
     (if type config = ''1'' then
        (let (v, k') = getRandomNumber (field_number (min_cfg config))
                         (field_number (max_cfg config)) rng k
         in Some (Inr (record(header config \<mapsto> Num v), k')))
      else if type config = ''2'' \<or> type config = ''3'' then
        (case list config of
           None \<Rightarrow> Some (Inl TypeError)
         | Some l \<Rightarrow>
             (let (v, k') = getRandomFromList l rng k
              in Some (Inr (record(header config \<mapsto> v), k'))))
      else if type config = ''4'' then
        (case getRandomString (field_number (length_cfg config)) rng k of
           None \<Rightarrow> None
         | Some (s, k') \<Rightarrow> Some (Inr (record(header config \<mapsto> Str s), k')))
      else if type config = ''5'' then
        Some (Inr (record(header config \<mapsto>
                     Num (num_add (field_number (start config))
                            (num_mul (Fin (real i)) (field_number (step config))))), k))
      else if type config = ''6'' then
        (case list config of
           None \<Rightarrow> Some (Inl TypeError)
         | Some l \<Rightarrow>
             Some (Inr (record(header config \<mapsto> element_at l (rem_length i (length l))), k)))
      else if type config = ''7'' then
        (case getRandomStringWithPrefix (field_string (prefix config))
                (field_number (length_cfg config)) rng k of
           None \<Rightarrow> None
         | Some (s, k') \<Rightarrow> Some (Inr (record(header config \<mapsto> Str s), k')))
      else Some (Inr (record, k)))"

text \<open>\<open>for (const config of columnConfigurations)\<close>: one record, column by column.\<close>

fun for_config ::
  "column_config list \<Rightarrow> nat \<Rightarrow> object \<Rightarrow> rng \<Rightarrow> nat
     \<Rightarrow> (js_error + (object \<times> nat)) option" where
  "for_config [] i record rng k = Some (Inr (record, k))"
| "for_config (config # rest) i record rng k =
     (case switch_type config i record rng k of
        None \<Rightarrow> None
      | Some (Inl e) \<Rightarrow> Some (Inl e)
      | Some (Inr (record', k')) \<Rightarrow> for_config rest i record' rng k')"

text \<open>
  \<open>for (let i = 0; i < numRecords; i++)\<close>, from counter \<open>i\<close> with the rows pushed so far.
  An error ends the loop: \<open>main\<close> catches it, logs it and writes no output. With
  \<open>numRecords\<close> \<open>Infinity\<close> the loop does not return: the result is \<open>None\<close>.
\<close>

partial_function (option) for_i ::
  "column_config list \<Rightarrow> number \<Rightarrow> nat \<Rightarrow> object list \<Rightarrow> rng \<Rightarrow> nat
     \<Rightarrow> (js_error + (object list \<times> nat)) option" where
  "for_i columnConfigurations numRecords i outputData rng k =
     (if num_less (Fin (real i)) numRecords then
        (case for_config columnConfigurations i Map.empty rng k of
           None \<Rightarrow> None
         | Some (Inl e) \<Rightarrow> Some (Inl e)
         | Some (Inr (record, k')) \<Rightarrow>
             for_i columnConfigurations numRecords (Suc i) (outputData @ [record]) rng k')
      else Some (Inr (outputData, k)))"

text \<open>The generation pass of \<open>main\<close>: \<open>outputData\<close> starts empty and the counter at 0.\<close>

definition generate ::
  "column_config list \<Rightarrow> number \<Rightarrow> rng \<Rightarrow> nat
     \<Rightarrow> (js_error + (object list \<times> nat)) option" where
  "generate columnConfigurations numRecords rng k =
     for_i columnConfigurations numRecords 0 [] rng k"

section \<open>Configuring a column\<close>

text \<open>\<open>input.split(',')\<close>: the pieces between the separators; the empty text has one empty piece.\<close>

fun split :: "char \<Rightarrow> string \<Rightarrow> string list" where
  "split sep [] = [[]]"
| "split sep (c # cs) =
     (if c = sep then [] # split sep cs
      else (case split sep cs of [] \<Rightarrow> [[c]] | piece # pieces \<Rightarrow> (c # piece) # pieces))"

text \<open>
  \<open>v.trim()\<close>, for the white space of ASCII (tab, line feed, vertical tab, form feed,
  carriage return, space).
\<close>

definition whitespace :: "char \<Rightarrow> bool" where
  "whitespace c = (c \<in> set [CHR 0x09, CHR 0x0A, CHR 0x0B, CHR 0x0C, CHR 0x0D, CHR 0x20])"

definition trim :: "string \<Rightarrow> string" where
  "trim s = rev (dropWhile whitespace (rev (dropWhile whitespace s)))"

text \<open>
  \<open>Number(v)\<close>. The conversion of text is the language's own and is a parameter
  \<open>StringToNumber\<close> of the model; the other cases are fixed.
\<close>

definition Number :: "(string \<Rightarrow> number) \<Rightarrow> val \<Rightarrow> number" where
  "Number StringToNumber v =
     (case v of
        Undefined \<Rightarrow> NaN
      | Null \<Rightarrow> Fin 0
      | Str s \<Rightarrow> StringToNumber s
      | Num n \<Rightarrow> n)"

text \<open>
  One conversion to run the model on: signed decimal literals with an optional fraction,
  white space around them ignored, the empty text read as 0 and any other text as \<open>NaN\<close>;
  the value of a literal is rounded to binary64. On these texts it agrees with
  \<open>Number()\<close>; exponents, radix prefixes and \<open>Infinity\<close> are not covered.
\<close>

definition is_digit :: "char \<Rightarrow> bool" where
  "is_digit c = (c \<in> set ''0123456789'')"

definition digits_value :: "string \<Rightarrow> nat" where
  "digits_value s = foldl (\<lambda>a c. 10 * a + first_index c ''0123456789'') 0 s"

definition unsigned_decimal :: "string \<Rightarrow> number" where
  "unsigned_decimal s =
     (let whole = takeWhile (\<lambda>c. c \<noteq> CHR ''.'') s;
          fraction = tl (dropWhile (\<lambda>c. c \<noteq> CHR ''.'') s)
      in if list_all is_digit whole \<and> list_all is_digit fraction \<and> whole @ fraction \<noteq> []
         then round64 (real (digits_value whole)
                         + real (digits_value fraction) / 10 ^ length fraction)
         else NaN)"

definition StringToNumber_decimal :: "string \<Rightarrow> number" where
  "StringToNumber_decimal s =
     (let t = trim s
      in if t = [] then Fin 0
         else if hd t = CHR ''-'' then num_neg (unsigned_decimal (tl t))
         else if hd t = CHR ''+'' then unsigned_decimal (tl t)
         else unsigned_decimal t)"

text \<open>A count printed in decimal, as a template literal prints it.\<close>

fun show_nat :: "nat \<Rightarrow> string" where
  "show_nat n =
     (if n < 10 then [''0123456789'' ! n]
      else show_nat (n div 10) @ [''0123456789'' ! (n mod 10)])"

declare show_nat.simps [simp del]

text \<open>
  The answers of the prompts of \<open>configureColumn\<close>, each under the name the code reads it
  by. The two list prompts hold the text as typed; their \<open>filter\<close> functions are part of
  \<open>configureColumn\<close> below. A call asks only the prompts of the branch it takes.
\<close>

record answers =
  generationType :: string
  rangeAnswer_min :: number
  rangeAnswer_max :: number
  useSource :: bool
  numericList :: string
  alphaList :: string
  lengthAnswer_length :: number
  prefixAnswer_prefix :: string
  prefixLengthAnswer_length :: number
  seqAnswer_start :: number
  seqAnswer_step :: number

text \<open>The filters of the two list prompts.\<close>

definition numericList_filter :: "(string \<Rightarrow> number) \<Rightarrow> string \<Rightarrow> val list" where
  "numericList_filter StringToNumber input =
     map (\<lambda>piece. Num (Number StringToNumber (Str piece))) (split CHR '','' input)"

definition alphaList_filter :: "string \<Rightarrow> val list" where
  "alphaList_filter input = map (\<lambda>v. Str (trim v)) (split CHR '','' input)"

text \<open>
  \<open>configureColumn\<close> returns the configuration together with the lines it printed with
  \<open>console.log\<close>. It has no failing path: no branch throws or rejects an answer.
\<close>

definition configureColumn ::
  "(string \<Rightarrow> number) \<Rightarrow> string \<Rightarrow> object list \<Rightarrow> answers \<Rightarrow> column_config \<times> string list" where
  "configureColumn StringToNumber header' records ans =
     (let uniqueValues = getUniqueValuesFromColumn records header';
          columnConfig = \<lparr>header = header',
                          type = (if generationType ans = ''3-source'' then ''3''
                                  else generationType ans),
                          min_cfg = None, max_cfg = None, list = None, length_cfg = None,
                          prefix = None, start = None, step = None\<rparr>
      in if generationType ans = ''1'' then
           (columnConfig\<lparr>min_cfg := Some (rangeAnswer_min ans),
                          max_cfg := Some (rangeAnswer_max ans)\<rparr>, [])
         else if generationType ans = ''2'' then
           (if useSource ans then
              (let numericValues =
                     filter (\<lambda>val. \<not> isNaN val) (map (Number StringToNumber) uniqueValues)
               in if length numericValues = 0 then
                    (columnConfig\<lparr>list :=
                         Some (numericList_filter StringToNumber (numericList ans))\<rparr>,
                     [''No valid numeric values found in column. Please enter custom values.''])
                  else
                    (columnConfig\<lparr>list := Some (map Num numericValues)\<rparr>,
                     [''Using '' @ show_nat (length numericValues)
                        @ '' unique numeric values from source column.'']))
            else
              (columnConfig\<lparr>list :=
                   Some (numericList_filter StringToNumber (numericList ans))\<rparr>, []))
         else if generationType ans = ''3-source'' then
           (if length uniqueValues = 0 then
              (columnConfig\<lparr>list := Some (alphaList_filter (alphaList ans))\<rparr>,
               [''No valid values found in column. Please enter custom values.''])
            else
              (columnConfig\<lparr>list := Some uniqueValues\<rparr>,
               [''Using '' @ show_nat (length uniqueValues)
                  @ '' unique values from source column.'']))
         else if generationType ans = ''3'' \<or> generationType ans = ''6'' then
           (if useSource ans then
              (if length uniqueValues = 0 then
                 (columnConfig\<lparr>list := Some (alphaList_filter (alphaList ans))\<rparr>,
                  [''No valid values found in column. Please enter custom values.''])
               else
                 (columnConfig\<lparr>list := Some uniqueValues\<rparr>,
                  [''Using '' @ show_nat (length uniqueValues)
                     @ '' unique values from source column.'']))
            else
              (columnConfig\<lparr>list := Some (alphaList_filter (alphaList ans))\<rparr>, []))
         else if generationType ans = ''4'' then
           (columnConfig\<lparr>length_cfg := Some (lengthAnswer_length ans)\<rparr>, [])
         else if generationType ans = ''7'' then
           (columnConfig\<lparr>prefix := Some (prefixAnswer_prefix ans),
                          length_cfg := Some (prefixLengthAnswer_length ans)\<rparr>, [])
         else if generationType ans = ''5'' then
           (columnConfig\<lparr>start := Some (seqAnswer_start ans),
                          step := Some (seqAnswer_step ans)\<rparr>, [])
         else (columnConfig, []))"

text \<open>Answers to run the model on: a numeric range, and a list-based choice.\<close>

definition range_answers :: "number \<Rightarrow> number \<Rightarrow> answers" where
  "range_answers lo hi =
     \<lparr>generationType = ''1'', rangeAnswer_min = lo, rangeAnswer_max = hi,
      useSource = True, numericList = [], alphaList = [], lengthAnswer_length = Fin 10,
      prefixAnswer_prefix = ''ID-'', prefixLengthAnswer_length = Fin 6,
      seqAnswer_start = Fin 1, seqAnswer_step = Fin 1\<rparr>"

definition list_answers :: "string \<Rightarrow> bool \<Rightarrow> string \<Rightarrow> answers" where
  "list_answers choice source input =
     \<lparr>generationType = choice, rangeAnswer_min = Fin 0, rangeAnswer_max = Fin 100,
      useSource = source, numericList = input, alphaList = input,
      lengthAnswer_length = Fin 10, prefixAnswer_prefix = ''ID-'',
      prefixLengthAnswer_length = Fin 6, seqAnswer_start = Fin 1, seqAnswer_step = Fin 1\<rparr>"

text \<open>A sequential column named \<open>id\<close>, to run the model on.\<close>

definition sequential_config :: "real \<Rightarrow> real \<Rightarrow> column_config" where
  "sequential_config a b =
     \<lparr>header = ''id'', type = ''5'', min_cfg = None, max_cfg = None, list = None,
      length_cfg = None, prefix = None, start = Some (Fin a), step = Some (Fin b)\<rparr>"

section \<open>Rounding to binary64\<close>

text \<open>
  The search finds the exponent: it is at most \<open>N\<close> when \<open>a * 2^1022 < 2^(N+1)\<close> and at
  least \<open>E\<close> when \<open>2^E \<le> a * 2^1022\<close>.
\<close>

lemma binade_le: "binade a n \<le> n"
  by (induction n) auto

lemma binade_upper:
  "a * 2 ^ 1022 < 2 ^ Suc N \<Longrightarrow> binade a n \<le> N"
proof (induction n)
  case 0
  then show ?case by simp
next
  case (Suc n)
  show ?case
  proof (cases "2 ^ Suc n \<le> a * 2 ^ 1022")
    case True
    with Suc.prems have "(2::real) ^ Suc n < 2 ^ Suc N" by linarith
    then have "Suc n < Suc N" by simp
    with True show ?thesis by simp
  next
    case False
    with Suc show ?thesis by simp
  qed
qed

lemma binade_ge:
  "2 ^ E \<le> a * 2 ^ 1022 \<Longrightarrow> E \<le> n \<Longrightarrow> E \<le> binade a n"
proof (induction n)
  case 0
  then show ?case by simp
next
  case (Suc n)
  show ?case
  proof (cases "2 ^ Suc n \<le> a * 2 ^ 1022")
    case True
    with Suc.prems show ?thesis by simp
  next
    case False
    with Suc.prems have "E \<noteq> Suc n" by auto
    with Suc.prems have "E \<le> n" by simp
    with Suc False show ?thesis by simp
  qed
qed

lemma binade_eq:
  assumes "2 ^ E \<le> a * 2 ^ 1022" and "a * 2 ^ 1022 < 2 ^ Suc E" and "E \<le> n"
  shows "binade a n = E"
  using binade_ge [OF assms(1,3)] binade_upper [OF assms(2), of n] by simp

lemma ulp_eq:
  assumes "2 ^ E \<le> a * 2 ^ 1022" and "a * 2 ^ 1022 < 2 ^ Suc E" and "E \<le> 2045"
  shows "ulp a = 2 ^ E / 2 ^ 1074"
  unfolding ulp_def binade_eq [OF assms] ..

lemma ulp_pos: "0 < ulp a"
  by (simp add: ulp_def)

text \<open>Rounding to an integer: exact on integers, off by at most a half.\<close>

lemma round_half_even_int: "round_half_even (of_int n) = n"
  by (simp add: round_half_even_def)

lemma round_half_even_error: "\<bar>of_int (round_half_even q) - q\<bar> \<le> 1 / 2"
  unfolding round_half_even_def Let_def by (auto; linarith)

lemma round_half_even_nonneg: "0 \<le> q \<Longrightarrow> 0 \<le> round_half_even q"
  unfolding round_half_even_def Let_def by auto

text \<open>
  A number \<open>m * 2^t / 2^1074\<close> with \<open>|m| < 2^53\<close> and \<open>t \<le> 2045\<close> is a binary64 number:
  rounding leaves it as it is.
\<close>

lemma round64_exact:
  fixes m :: int and t :: nat
  assumes m: "\<bar>m\<bar> < 2 ^ 53" and t: "t \<le> 2045"
  shows "round64 (of_int m * 2 ^ t / 2 ^ 1074) = Fin (of_int m * 2 ^ t / 2 ^ 1074)"
proof -
  define x :: real where "x = of_int m * 2 ^ t / 2 ^ 1074"
  define a where "a = \<bar>x\<bar>"
  define E where "E = binade a 2045"
  have a_eq: "a = of_int \<bar>m\<bar> * 2 ^ t / 2 ^ 1074"
    by (simp add: a_def x_def abs_mult)
  have "of_int \<bar>m\<bar> < (2::real) ^ 53"
    using m by (metis of_int_less_iff of_int_numeral of_int_power)
  then have "of_int \<bar>m\<bar> * (2::real) ^ t < 2 ^ 53 * 2 ^ t"
    by simp
  then have a_lt: "a * 2 ^ 1074 < 2 ^ 53 * 2 ^ t"
    by (simp add: a_eq)
  have "a * 2 ^ 1022 * 2 ^ 52 = a * 2 ^ 1074"
    by simp
  with a_lt have "a * 2 ^ 1022 * 2 ^ 52 < 2 ^ Suc t * 2 ^ 52"
    by simp
  then have "a * 2 ^ 1022 < 2 ^ Suc t"
    by simp
  then have E_le: "E \<le> t"
    unfolding E_def by (rule binade_upper)
  then obtain d where d: "t = E + d"
    using le_Suc_ex by blast
  have ulp_a: "ulp a = 2 ^ E / 2 ^ 1074"
    by (simp add: ulp_def E_def)
  have q: "a / ulp a = of_int (\<bar>m\<bar> * 2 ^ d)"
    unfolding ulp_a by (simp add: a_eq d power_add)
  have y: "of_int (round_half_even (a / ulp a)) * ulp a = a"
    unfolding q round_half_even_int unfolding ulp_a by (simp add: a_eq d power_add)
  have "a * 2 ^ 1074 < 2 ^ 53 * 2 ^ 2045"
  proof -
    have "(2::real) ^ t \<le> 2 ^ 2045"
      using t by (intro power_increasing) simp_all
    then have "(2::real) ^ 53 * 2 ^ t \<le> 2 ^ 53 * 2 ^ 2045"
      by (intro mult_left_mono) simp_all
    with a_lt show ?thesis by linarith
  qed
  then have "a * 2 ^ 1074 < 2 ^ 1024 * 2 ^ 1074"
    by simp
  then have small: "a < 2 ^ 1024"
    by simp
  have "round64 x = Fin (if 0 \<le> x then a else - a)"
    using small y by (simp add: round64_def Let_def a_def [symmetric])
  also have "(if 0 \<le> x then a else - a) = x"
    by (simp add: a_def)
  finally show ?thesis by (simp add: x_def)
qed

lemma round64_of_int:
  fixes m :: int
  assumes "\<bar>m\<bar> \<le> 2 ^ 53"
  shows "round64 (of_int m) = Fin (of_int m)"
proof (cases "\<bar>m\<bar> < 2 ^ 53")
  case True
  from round64_exact [OF True, of 1074] show ?thesis by simp
next
  case False
  with assms have "\<bar>m\<bar> = 2 ^ 53" by simp
  then consider "m = 2 ^ 53" | "m = - (2 ^ 53)" by (auto simp: abs_if split: if_splits)
  then show ?thesis
  proof cases
    case 1
    from round64_exact [of 1 1127] show ?thesis by (simp add: 1)
  next
    case 2
    from round64_exact [of "- 1" 1127] show ?thesis by (simp add: 2)
  qed
qed

lemma round64_dyadic:
  fixes m :: int and k :: nat
  assumes "\<bar>m\<bar> < 2 ^ 53" and "k \<le> 1074"
  shows "round64 (of_int m / 2 ^ k) = Fin (of_int m / 2 ^ k)"
proof -
  from assms(2) obtain t where t: "1074 = k + t"
    using le_Suc_ex by blast
  then have "t \<le> 2045" by simp
  from round64_exact [OF assms(1) this]
  have "round64 (of_int m * 2 ^ t / 2 ^ (k + t)) = Fin (of_int m * 2 ^ t / 2 ^ (k + t))"
    by (simp only: t)
  then show ?thesis by (simp add: power_add)
qed

text \<open>Integers up to \<open>2^53\<close> in magnitude, in the forms they are met in.\<close>

lemma round64_of_nat: "n \<le> 2 ^ 53 \<Longrightarrow> round64 (real n) = Fin (real n)"
  using round64_of_int [of "int n"] by simp

lemma round64_0: "round64 0 = Fin 0"
  using round64_of_int [of 0] by simp

lemma round64_1: "round64 1 = Fin 1"
  using round64_of_int [of 1] by simp

lemma round64_numeral:
  "(numeral w :: int) \<le> 2 ^ 53 \<Longrightarrow> round64 (numeral w) = Fin (numeral w)"
  using round64_of_int [of "numeral w"] by simp

lemma round64_neg_numeral:
  "(numeral w :: int) \<le> 2 ^ 53 \<Longrightarrow> round64 (- numeral w) = Fin (- numeral w)"
  using round64_of_int [of "- numeral w"] by simp

lemmas round64_small = round64_0 round64_1 round64_numeral round64_neg_numeral

text \<open>
  Rounding moves a number below \<open>2^(N+1) / 2^1022\<close> by at most half a unit in the last
  place, \<open>2^N / 2^1075\<close>.
\<close>

lemma round64_error:
  fixes x :: real and N :: nat
  assumes "0 \<le> x" and "x * 2 ^ 1022 < 2 ^ Suc N" and "N \<le> 2044"
  shows "\<exists>y. round64 x = Fin y \<and> 0 \<le> y \<and> \<bar>y - x\<bar> \<le> 2 ^ N / 2 ^ 1075"
proof -
  define E where "E = binade x 2045"
  define n where "n = round_half_even (x / ulp x)"
  define y where "y = of_int n * ulp x"
  have E_le: "E \<le> N"
    unfolding E_def using assms(2) by (rule binade_upper)
  have ulp_x: "ulp x = 2 ^ E / 2 ^ 1074"
    by (simp add: ulp_def E_def)
  have ulp_le: "ulp x \<le> 2 ^ N / 2 ^ 1074"
    unfolding ulp_x using E_le by (simp add: divide_right_mono)
  have "\<bar>of_int n - x / ulp x\<bar> \<le> 1 / 2"
    unfolding n_def by (rule round_half_even_error)
  then have "\<bar>of_int n - x / ulp x\<bar> * ulp x \<le> 1 / 2 * ulp x"
    using ulp_pos [of x] by (simp add: mult_right_mono)
  moreover have "\<bar>of_int n - x / ulp x\<bar> * ulp x = \<bar>y - x\<bar>"
  proof -
    have "\<bar>of_int n - x / ulp x\<bar> * ulp x = \<bar>(of_int n - x / ulp x) * ulp x\<bar>"
      using ulp_pos [of x] by (simp add: abs_mult)
    also have "(of_int n - x / ulp x) * ulp x = y - x"
      using ulp_pos [of x] by (simp add: y_def algebra_simps)
    finally show ?thesis .
  qed
  ultimately have err: "\<bar>y - x\<bar> \<le> ulp x / 2"
    by simp
  with ulp_le have err': "\<bar>y - x\<bar> \<le> 2 ^ N / 2 ^ 1075"
    by simp
  have "0 \<le> x / ulp x"
    using assms(1) ulp_pos [of x] by simp
  then have "0 \<le> n"
    unfolding n_def by (rule round_half_even_nonneg)
  then have y0: "0 \<le> y"
    using ulp_pos [of x] by (simp add: y_def)
  have "x < 2 ^ Suc N / 2 ^ 1022"
    using assms(2) by (simp add: pos_less_divide_eq)
  also have "\<dots> \<le> 2 ^ 2045 / 2 ^ 1022"
    using assms(3) by (intro divide_right_mono power_increasing) simp_all
  finally have x_lt: "x < 2 ^ 1023"
    by simp
  have "(2::real) ^ N / 2 ^ 1075 \<le> 2 ^ 2044 / 2 ^ 1075"
    using assms(3) by (intro divide_right_mono power_increasing) simp_all
  then have "\<bar>y - x\<bar> \<le> 2 ^ 969"
    using err' by simp
  with x_lt have "y < 2 ^ 1023 + 2 ^ 969"
    by linarith
  then have small: "y < 2 ^ 1024"
    by simp
  have "round64 x = Fin y"
    using small assms(1) by (simp add: round64_def Let_def y_def n_def)
  with y0 err' show ?thesis by blast
qed

text \<open>\<open>2^53 + 1\<close> lies halfway between two binary64 numbers; the even one is \<open>2^53\<close>.\<close>

lemma round64_tie_example: "round64 (2 ^ 53 + 1) = Fin (2 ^ 53)"
proof -
  define x :: real where "x = 2 ^ 53 + 1"
  have pos: "\<bar>x\<bar> = x" "0 \<le> x"
    by (simp_all add: x_def)
  have u: "ulp x = 2"
    using ulp_eq [of 1075 x] by (simp add: x_def)
  have r: "round_half_even (x / 2) = 2 ^ 52"
    by (simp add: round_half_even_def x_def)
  have "round64 x = Fin (2 ^ 53)"
    unfolding round64_def Let_def pos(1) u r using pos(2) by simp
  then show ?thesis by (simp add: x_def)
qed

text \<open>\<open>2^1024\<close> is out of range: it rounds to \<open>Infinity\<close>.\<close>

lemma round64_overflow: "round64 (2 ^ 1024) = PInf"
proof -
  define x :: real where "x = 2 ^ 1024"
  have pos: "\<bar>x\<bar> = x" "0 < x"
    by (simp_all add: x_def)
  have "2 ^ 2045 \<le> x * 2 ^ 1022"
    by (simp add: x_def)
  from binade_ge [OF this, of 2045] binade_le [of x 2045]
  have "binade x 2045 = 2045"
    by simp
  then have u: "ulp x = 2 ^ 971"
    by (simp add: ulp_def)
  have "x / 2 ^ 971 = of_int (2 ^ 53)"
    by (simp add: x_def)
  then have r: "round_half_even (x / 2 ^ 971) = 2 ^ 53"
    by (simp only: round_half_even_int)
  have "round64 x = PInf"
    unfolding round64_def Let_def pos(1) u r using pos(2) by simp
  then show ?thesis by (simp add: x_def)
qed

text \<open>A draw is a multiple of \<open>2^-53\<close> in \<open>[0, 1)\<close> when the sample is in \<open>[0, 1)\<close>.\<close>

lemma Math_random_draw:
  assumes "0 \<le> rng k" and "rng k < 1"
  obtains m :: int where "Math_random rng k = (Fin (of_int m / 2 ^ 53), Suc k)"
    and "0 \<le> m" and "m < 2 ^ 53"
proof
  show "Math_random rng k = (Fin (of_int \<lfloor>rng k * 2 ^ 53\<rfloor> / 2 ^ 53), Suc k)"
    by (simp add: Math_random_def)
  show "0 \<le> \<lfloor>rng k * 2 ^ 53\<rfloor>"
    using assms(1) by simp
  have "rng k * 2 ^ 53 < of_int (2 ^ 53)"
    using assms(2) by simp
  then show "\<lfloor>rng k * 2 ^ 53\<rfloor> < 2 ^ 53"
    by (simp only: floor_less_iff)
qed

lemma binade_lower:
  "0 < binade a n \<Longrightarrow> 2 ^ binade a n \<le> a * 2 ^ 1022"
  by (induction n) (auto split: if_splits)

text \<open>
  From \<open>2^-1021\<close> on, where the numbers are normal, rounding moves a number by at most
  its \<open>2^53\<close>-th part.
\<close>

lemma round64_relative:
  fixes x :: real
  assumes "2 \<le> x * 2 ^ 1022" and "x < 2 ^ 1023"
  shows "\<exists>y. round64 x = Fin y \<and> \<bar>y - x\<bar> \<le> x / 2 ^ 53"
proof -
  define E where "E = binade x 2045"
  define n where "n = round_half_even (x / ulp x)"
  define y where "y = of_int n * ulp x"
  have "0 < x * 2 ^ 1022"
    using assms(1) by linarith
  then have x_pos: "0 < x"
    by (simp add: zero_less_mult_iff)
  have "(2::real) ^ 1 \<le> x * 2 ^ 1022"
    using assms(1) by simp
  then have "1 \<le> E"
    unfolding E_def by (rule binade_ge) simp
  then have "0 < binade x 2045"
    by (simp add: E_def)
  then have "2 ^ E \<le> x * 2 ^ 1022"
    unfolding E_def by (rule binade_lower)
  then have "2 ^ E / 2 ^ 1074 \<le> x * 2 ^ 1022 / 2 ^ 1074"
    by (rule divide_right_mono) simp
  then have ulp_le: "ulp x \<le> x / 2 ^ 52"
    by (simp add: ulp_def E_def)
  have "\<bar>of_int n - x / ulp x\<bar> \<le> 1 / 2"
    unfolding n_def by (rule round_half_even_error)
  then have "\<bar>of_int n - x / ulp x\<bar> * ulp x \<le> 1 / 2 * ulp x"
    using ulp_pos [of x] by (simp add: mult_right_mono)
  moreover have "\<bar>of_int n - x / ulp x\<bar> * ulp x = \<bar>y - x\<bar>"
  proof -
    have "\<bar>of_int n - x / ulp x\<bar> * ulp x = \<bar>(of_int n - x / ulp x) * ulp x\<bar>"
      using ulp_pos [of x] by (simp add: abs_mult)
    also have "(of_int n - x / ulp x) * ulp x = y - x"
      using ulp_pos [of x] by (simp add: y_def algebra_simps)
    finally show ?thesis .
  qed
  ultimately have "\<bar>y - x\<bar> \<le> ulp x / 2"
    by simp
  with ulp_le have err: "\<bar>y - x\<bar> \<le> x / 2 ^ 53"
    by simp
  then have "y - x \<le> x / 2 ^ 53"
    by (rule order_trans [OF abs_ge_self])
  then have "y \<le> x + x / 2 ^ 53"
    by simp
  also have "\<dots> < 2 ^ 1023 + 2 ^ 1023 / 2 ^ 53"
    using assms(2) by (intro add_strict_mono divide_strict_right_mono) simp_all
  also have "\<dots> < 2 ^ 1024"
    by simp
  finally have small: "y < 2 ^ 1024" .
  have "round64 x = Fin y"
    using small x_pos by (simp add: round64_def Let_def y_def n_def)
  with err show ?thesis by blast
qed

section \<open>Random numeric range\<close>

text \<open>The numbers met at the bounds 1/2 and 5/4 are binary64 numbers.\<close>

lemma round64_quarters:
  "round64 (3 / 4) = Fin (3 / 4)" "round64 (7 / 4) = Fin (7 / 4)"
  "round64 (21 / 16) = Fin (21 / 16)" "round64 (3 / 2) = Fin (3 / 2)"
  using round64_dyadic [of 3 2] round64_dyadic [of 7 2] round64_dyadic [of 21 4]
    round64_dyadic [of 3 1]
  by simp_all

lemma Math_random_three_quarters:
  "Math_random (constant_rng (3 / 4)) k = (Fin (3 / 4), Suc k)"
  by (simp add: Math_random_def constant_rng_def)

lemma Math_random_half:
  "Math_random (constant_rng (1 / 2)) k = (Fin (1 / 2), Suc k)"
  by (simp add: Math_random_def constant_rng_def)

lemma Math_random_zero:
  "Math_random (constant_rng 0) k = (Fin 0, Suc k)"
  by (simp add: Math_random_def constant_rng_def)

text \<open>
  Claim C1 says that for bounds \<open>min \<le> max\<close> and a draw in \<open>[0, 1)\<close> the value
  \<open>floor(r * (max - min + 1)) + min\<close> lies between \<open>min\<close> and \<open>max\<close>. The code at the
  bounds \<open>min = 1/2\<close>, \<open>max = 5/4\<close> with the draw \<open>3/4\<close>: every step is exact in binary64
  and the value is \<open>floor(3/4 * 7/4) + 1/2 = 3/2\<close>, above \<open>max\<close>; the generation step
  stores it under the column's header.
\<close>

theorem numeric_range_fractional_bounds:
  "getRandomNumber (Fin (1 / 2)) (Fin (5 / 4)) (constant_rng (3 / 4)) 0 = (Fin (3 / 2), Suc 0)
   \<and> (1 / 2 :: real) \<le> 5 / 4 \<and> \<not> ((3 / 2 :: real) \<le> 5 / 4)
   \<and> switch_type \<lparr>header = ''n'', type = ''1'', min_cfg = Some (Fin (1 / 2)),
         max_cfg = Some (Fin (5 / 4)), list = None, length_cfg = None, prefix = None,
         start = None, step = None\<rparr>
        0 Map.empty (constant_rng (3 / 4)) 0
     = Some (Inr ([''n'' \<mapsto> Num (Fin (3 / 2))], Suc 0))"
proof -
  have g: "getRandomNumber (Fin (1 / 2)) (Fin (5 / 4)) (constant_rng (3 / 4)) 0
             = (Fin (3 / 2), Suc 0)"
    by (simp add: getRandomNumber_def Math_random_three_quarters num_sub_def round64_quarters)
  then show ?thesis
    by (simp add: switch_type_def)
qed

text \<open>
  Whole bounds do not help when their difference is out of range: between \<open>-2^1023\<close> and
  \<open>2^1023\<close> the difference \<open>max - min\<close> overflows, and the value is \<open>Infinity\<close> for a
  positive draw and \<open>NaN\<close> for the draw 0.
\<close>

lemma numeric_range_overflow:
  "getRandomNumber (Fin (- (2 ^ 1023))) (Fin (2 ^ 1023)) (constant_rng (1 / 2)) 0
     = (PInf, Suc 0)"
  "getRandomNumber (Fin (- (2 ^ 1023))) (Fin (2 ^ 1023)) (constant_rng 0) 0 = (NaN, Suc 0)"
proof -
  have "(2::real) ^ 1023 + 2 ^ 1023 = 2 ^ 1024"
    by simp
  then have d: "num_sub (Fin (2 ^ 1023)) (Fin (- (2 ^ 1023))) = PInf"
    by (simp only: num_sub_def num_neg.simps num_add.simps minus_minus round64_overflow)
  show "getRandomNumber (Fin (- (2 ^ 1023))) (Fin (2 ^ 1023)) (constant_rng (1 / 2)) 0
          = (PInf, Suc 0)"
    unfolding getRandomNumber_def Math_random_half d by simp
  show "getRandomNumber (Fin (- (2 ^ 1023))) (Fin (2 ^ 1023)) (constant_rng 0) 0
          = (NaN, Suc 0)"
    unfolding getRandomNumber_def Math_random_zero d by simp
qed

text \<open>
  On whole bounds, the domain of the idiom, the function keeps its promise as long as
  the bounds and the number of values between them are within \<open>2^53\<close>: the product of
  a draw and the width \<open>w = max - min + 1\<close> is at most \<open>w * (1 - 2^-53)\<close>, and rounding
  leaves it below \<open>w\<close>.
\<close>

lemma draw_times_width:
  fixes m w :: int
  assumes "0 \<le> m" and "m < 2 ^ 53" and "1 \<le> w" and "w \<le> 2 ^ 53"
  shows "\<exists>y. round64 (of_int m / 2 ^ 53 * of_int w) = Fin y \<and> 0 \<le> y \<and> y < of_int w"
proof (cases "m = 0")
  case True
  then show ?thesis
    using assms(3) by (simp add: round64_0)
next
  case False
  define W :: real where "W = of_int w"
  define x :: real where "x = of_int m / 2 ^ 53 * W"
  have W1: "1 \<le> W"
    using assms(3) by (simp add: W_def)
  have "(of_int w :: real) \<le> of_int (2 ^ 53)"
    using assms(4) by (simp only: of_int_le_iff)
  then have W_le: "W \<le> 2 ^ 53"
    by (simp add: W_def)
  from False assms(1) have "1 \<le> m"
    by simp
  then have "(of_int 1 :: real) \<le> of_int m"
    by (simp only: of_int_le_iff)
  then have m1: "(1 :: real) \<le> of_int m"
    by simp
  have "m \<le> 2 ^ 53 - 1"
    using assms(2) by simp
  then have "(of_int m :: real) \<le> of_int (2 ^ 53 - 1)"
    by (simp only: of_int_le_iff)
  then have m_le: "(of_int m :: real) \<le> 2 ^ 53 - 1"
    by simp
  have "1 / 2 ^ 53 * 1 \<le> of_int m / 2 ^ 53 * W"
    using m1 W1 by (intro mult_mono divide_right_mono) simp_all
  then have x_ge: "1 / 2 ^ 53 \<le> x"
    by (simp add: x_def)
  have "of_int m / 2 ^ 53 * W \<le> (2 ^ 53 - 1) / 2 ^ 53 * W"
    using m_le W1 by (intro mult_right_mono divide_right_mono) simp_all
  then have x_le: "x \<le> (1 - 1 / 2 ^ 53) * W"
    by (simp add: x_def diff_divide_distrib)
  have "1 / 2 ^ 53 * 2 ^ 1022 \<le> x * 2 ^ 1022"
    using x_ge by (intro mult_right_mono) simp_all
  then have normal: "2 \<le> x * 2 ^ 1022"
    by simp
  have "x \<le> W"
    using x_le W1 by simp
  with W_le have "x < 2 ^ 1023"
    by simp
  from round64_relative [OF normal this] obtain y
    where y: "round64 x = Fin y" and err: "\<bar>y - x\<bar> \<le> x / 2 ^ 53"
    by blast
  from err have up: "y - x \<le> x / 2 ^ 53"
    by (rule order_trans [OF abs_ge_self])
  from err have "- (y - x) \<le> x / 2 ^ 53"
    by (rule order_trans [OF abs_ge_minus_self])
  then have down: "x - x / 2 ^ 53 \<le> y"
    by simp
  have "0 \<le> x"
    using x_ge by simp
  then have "x / 2 ^ 53 \<le> x"
    by (simp add: field_simps)
  with down have y0: "0 \<le> y"
    by simp
  have y_lt: "y < W"
    using up x_le W1 by simp
  from y y0 y_lt show ?thesis
    unfolding x_def W_def by blast
qed

lemma numeric_range_whole_bounds:
  fixes a b :: int
  assumes "a \<le> b" and "\<bar>a\<bar> \<le> 2 ^ 53" and "\<bar>b\<bar> \<le> 2 ^ 53" and "b - a < 2 ^ 53"
    and "0 \<le> rng k" and "rng k < 1"
  shows "\<exists>v. getRandomNumber (Fin (of_int a)) (Fin (of_int b)) rng k = (Fin (of_int v), Suc k)
             \<and> a \<le> v \<and> v \<le> b"
proof -
  from assms(5,6) obtain m :: int
    where draw: "Math_random rng k = (Fin (of_int m / 2 ^ 53), Suc k)"
      and m: "0 \<le> m" "m < 2 ^ 53"
    by (rule Math_random_draw)
  define w where "w = b - a + 1"
  have w: "1 \<le> w" "w \<le> 2 ^ 53"
    using assms(1,4) by (simp_all add: w_def)
  have "\<bar>b - a\<bar> \<le> 2 ^ 53"
    using assms(1,4) by simp
  then have "round64 (of_int (b - a)) = Fin (of_int (b - a))"
    by (rule round64_of_int)
  then have sub: "num_sub (Fin (of_int b)) (Fin (of_int a)) = Fin (of_int (b - a))"
    by (simp add: num_sub_def)
  have "\<bar>w\<bar> \<le> 2 ^ 53"
    using w by simp
  then have "round64 (of_int w) = Fin (of_int w)"
    by (rule round64_of_int)
  then have width: "num_add (Fin (of_int (b - a))) (Fin 1) = Fin (of_int w)"
    by (simp add: w_def)
  from draw_times_width [OF m w] obtain y
    where y: "round64 (of_int m / 2 ^ 53 * of_int w) = Fin y" and y0: "0 \<le> y"
      and y_lt: "y < of_int w"
    by blast
  have product: "num_mul (Fin (of_int m / 2 ^ 53)) (Fin (of_int w)) = Fin y"
    using y by simp
  define v where "v = \<lfloor>y\<rfloor> + a"
  have lo: "0 \<le> \<lfloor>y\<rfloor>"
    using y0 by simp
  have hi: "\<lfloor>y\<rfloor> < w"
    using y_lt by (simp add: floor_less_iff)
  have v: "a \<le> v" "v \<le> b"
    using lo hi by (simp_all add: v_def w_def)
  then have "\<bar>v\<bar> \<le> 2 ^ 53"
    using assms(2,3) by linarith
  then have "round64 (of_int v) = Fin (of_int v)"
    by (rule round64_of_int)
  then have sum: "num_add (Fin (of_int \<lfloor>y\<rfloor>)) (Fin (of_int a)) = Fin (of_int v)"
    by (simp add: v_def)
  have "getRandomNumber (Fin (of_int a)) (Fin (of_int b)) rng k = (Fin (of_int v), Suc k)"
    unfolding getRandomNumber_def draw prod.case Let_def sub width product
    by (simp only: Math_floor.simps sum)
  with v show ?thesis by blast
qed

section \<open>Sequential range\<close>

lemma switch_type_5:
  assumes "type c = ''5''" and "start c = Some s" and "step c = Some t"
  shows "switch_type c i row rng k
           = Some (Inr (row(header c \<mapsto> Num (num_add s (num_mul (Fin (real i)) t))), k))"
  using assms by (simp add: switch_type_def)

text \<open>
  For whole \<open>start\<close> and \<open>step\<close> the product and the sum are exact as long as
  \<open>|start| + i * |step|\<close> does not exceed \<open>2^53\<close>.
\<close>

lemma sequential_exact:
  fixes a b :: int and i :: nat
  assumes "\<bar>a\<bar> + int i * \<bar>b\<bar> \<le> 2 ^ 53"
  shows "num_add (Fin (of_int a)) (num_mul (Fin (real i)) (Fin (of_int b)))
           = Fin (of_int (a + int i * b))"
proof -
  have "\<bar>int i * b\<bar> = int i * \<bar>b\<bar>"
    by (simp add: abs_mult)
  moreover have "0 \<le> \<bar>a\<bar>" "0 \<le> int i * \<bar>b\<bar>"
    by simp_all
  ultimately have p: "\<bar>int i * b\<bar> \<le> 2 ^ 53"
    using assms by linarith
  have "\<bar>a + int i * b\<bar> \<le> \<bar>a\<bar> + \<bar>int i * b\<bar>"
    by (rule abs_triangle_ineq)
  also have "\<dots> = \<bar>a\<bar> + int i * \<bar>b\<bar>"
    by (simp add: abs_mult)
  finally have s: "\<bar>a + int i * b\<bar> \<le> 2 ^ 53"
    using assms by linarith
  have "num_mul (Fin (real i)) (Fin (of_int b)) = round64 (of_int (int i * b))"
    by simp
  also have "\<dots> = Fin (of_int (int i * b))"
    using p by (rule round64_of_int)
  finally have "num_add (Fin (of_int a)) (num_mul (Fin (real i)) (Fin (of_int b)))
                  = round64 (of_int (a + int i * b))"
    by simp
  also have "\<dots> = Fin (of_int (a + int i * b))"
    using s by (rule round64_of_int)
  finally show ?thesis .
qed

lemma sequential_bound_down:
  fixes a b :: int and i j :: nat
  assumes "i < j" and "\<bar>a\<bar> + int j * \<bar>b\<bar> \<le> 2 ^ 53"
  shows "\<bar>a\<bar> + int i * \<bar>b\<bar> \<le> 2 ^ 53"
proof -
  have "int i * \<bar>b\<bar> \<le> int j * \<bar>b\<bar>"
    using assms(1) by (intro mult_right_mono) simp_all
  with assms(2) show ?thesis by linarith
qed

text \<open>The rows of a sequential column with whole \<open>start\<close> and \<open>step\<close>.\<close>

lemma sequential_whole:
  assumes "type c = ''5''" and "start c = Some (Fin (of_int a))"
    and "step c = Some (Fin (of_int b))"
  shows "\<exists>f. (\<forall>i row rng k.
                 switch_type c i row rng k = Some (Inr (row(header c \<mapsto> Num (f i)), k)))
           \<and> (\<forall>i. \<bar>a\<bar> + int i * \<bar>b\<bar> \<le> 2 ^ 53 \<longrightarrow> f i = Fin (of_int (a + int i * b)))
           \<and> (0 < b \<longrightarrow> (\<forall>i j. i < j \<and> \<bar>a\<bar> + int j * \<bar>b\<bar> \<le> 2 ^ 53
                  \<longrightarrow> (\<exists>x y. f i = Fin x \<and> f j = Fin y \<and> x < y)))
           \<and> (b < 0 \<longrightarrow> (\<forall>i j. i < j \<and> \<bar>a\<bar> + int j * \<bar>b\<bar> \<le> 2 ^ 53
                  \<longrightarrow> (\<exists>x y. f i = Fin x \<and> f j = Fin y \<and> y < x)))
           \<and> (b = 0 \<longrightarrow> (\<forall>i. f i = f 0))"
proof -
  define f where "f i = num_add (Fin (of_int a)) (num_mul (Fin (real i)) (Fin (of_int b)))"
    for i
  have sw: "\<forall>i row rng k.
              switch_type c i row rng k = Some (Inr (row(header c \<mapsto> Num (f i)), k))"
    by (simp add: switch_type_5 [OF assms] f_def)
  have exact: "f i = Fin (of_int (a + int i * b))" if "\<bar>a\<bar> + int i * \<bar>b\<bar> \<le> 2 ^ 53" for i
    unfolding f_def using that by (rule sequential_exact)
  have ex: "\<forall>i. \<bar>a\<bar> + int i * \<bar>b\<bar> \<le> 2 ^ 53 \<longrightarrow> f i = Fin (of_int (a + int i * b))"
    using exact by blast
  have inc: "0 < b \<longrightarrow> (\<forall>i j. i < j \<and> \<bar>a\<bar> + int j * \<bar>b\<bar> \<le> 2 ^ 53
                  \<longrightarrow> (\<exists>x y. f i = Fin x \<and> f j = Fin y \<and> x < y))"
  proof (intro impI allI, elim conjE)
    fix i j :: nat
    assume b: "0 < b" and ij: "i < j" and bound: "\<bar>a\<bar> + int j * \<bar>b\<bar> \<le> 2 ^ 53"
    have fi: "f i = Fin (of_int (a + int i * b))"
      by (rule exact) (rule sequential_bound_down [OF ij bound])
    have fj: "f j = Fin (of_int (a + int j * b))"
      by (rule exact) (rule bound)
    have "int i * b < int j * b"
      using b ij by simp
    then have "a + int i * b < a + int j * b"
      by simp
    then have "(of_int (a + int i * b) :: real) < of_int (a + int j * b)"
      by (simp only: of_int_less_iff)
    with fi fj show "\<exists>x y. f i = Fin x \<and> f j = Fin y \<and> x < y"
      by blast
  qed
  have dec: "b < 0 \<longrightarrow> (\<forall>i j. i < j \<and> \<bar>a\<bar> + int j * \<bar>b\<bar> \<le> 2 ^ 53
                  \<longrightarrow> (\<exists>x y. f i = Fin x \<and> f j = Fin y \<and> y < x))"
  proof (intro impI allI, elim conjE)
    fix i j :: nat
    assume b: "b < 0" and ij: "i < j" and bound: "\<bar>a\<bar> + int j * \<bar>b\<bar> \<le> 2 ^ 53"
    have fi: "f i = Fin (of_int (a + int i * b))"
      by (rule exact) (rule sequential_bound_down [OF ij bound])
    have fj: "f j = Fin (of_int (a + int j * b))"
      by (rule exact) (rule bound)
    have "int j * b < int i * b"
      using b ij by (simp add: mult_less_cancel_right)
    then have "a + int j * b < a + int i * b"
      by simp
    then have "(of_int (a + int j * b) :: real) < of_int (a + int i * b)"
      by (simp only: of_int_less_iff)
    with fi fj show "\<exists>x y. f i = Fin x \<and> f j = Fin y \<and> y < x"
      by blast
  qed
  have const: "b = 0 \<longrightarrow> (\<forall>i. f i = f 0)"
    by (simp add: f_def)
  from sw ex inc dec const show ?thesis
    by blast
qed

text \<open>
  Claim C3, in the form that holds of the code.
  For a configuration of type \<open>'5'\<close> the value generated for row \<open>i\<close> is
  \<open>start + i * step\<close> as binary64 arithmetic computes it, the product rounded and then
  the sum; it does not depend on the random source and no draw is consumed; and when
  \<open>step\<close> is 0 every row has the value of row 0. For whole \<open>start\<close> and \<open>step\<close> the
  value is \<open>start + i * step\<close> exactly as long as \<open>|start| + i * |step| \<le> 2^53\<close>, and over
  such rows the values are strictly increasing in \<open>i\<close> when \<open>step > 0\<close> and strictly
  decreasing when \<open>step < 0\<close>.
\<close>

theorem sequential_numeric_binary64:
  assumes "type c = ''5''"
  shows "(\<forall>row rng k.
            switch_type c i row rng k
              = Some (Inr (row(header c \<mapsto>
                             Num (num_add (field_number (start c))
                                    (num_mul (Fin (real i)) (field_number (step c))))), k)))
       \<and> (step c = Some (Fin 0) \<longrightarrow>
            (\<forall>row rng k. switch_type c i row rng k = switch_type c 0 row rng k))
       \<and> (start c = Some (Fin (of_int a)) \<and> step c = Some (Fin (of_int b)) \<longrightarrow>
            (\<exists>f. (\<forall>i row rng k.
                     switch_type c i row rng k = Some (Inr (row(header c \<mapsto> Num (f i)), k)))
               \<and> (\<forall>i. \<bar>a\<bar> + int i * \<bar>b\<bar> \<le> 2 ^ 53 \<longrightarrow> f i = Fin (of_int (a + int i * b)))
               \<and> (0 < b \<longrightarrow> (\<forall>i j. i < j \<and> \<bar>a\<bar> + int j * \<bar>b\<bar> \<le> 2 ^ 53
                      \<longrightarrow> (\<exists>x y. f i = Fin x \<and> f j = Fin y \<and> x < y)))
               \<and> (b < 0 \<longrightarrow> (\<forall>i j. i < j \<and> \<bar>a\<bar> + int j * \<bar>b\<bar> \<le> 2 ^ 53
                      \<longrightarrow> (\<exists>x y. f i = Fin x \<and> f j = Fin y \<and> y < x)))
               \<and> (b = 0 \<longrightarrow> (\<forall>i. f i = f 0))))"
proof (intro conjI impI)
  show "\<forall>row rng k.
          switch_type c i row rng k
            = Some (Inr (row(header c \<mapsto>
                           Num (num_add (field_number (start c))
                                  (num_mul (Fin (real i)) (field_number (step c))))), k))"
    using assms by (simp add: switch_type_def)
next
  assume "step c = Some (Fin 0)"
  then show "\<forall>row rng k. switch_type c i row rng k = switch_type c 0 row rng k"
    using assms by (simp add: switch_type_def)
next
  assume "start c = Some (Fin (of_int a)) \<and> step c = Some (Fin (of_int b))"
  then have "start c = Some (Fin (of_int a))" and "step c = Some (Fin (of_int b))"
    by simp_all
  with assms
  show "\<exists>f. (\<forall>i row rng k.
                 switch_type c i row rng k = Some (Inr (row(header c \<mapsto> Num (f i)), k)))
           \<and> (\<forall>i. \<bar>a\<bar> + int i * \<bar>b\<bar> \<le> 2 ^ 53 \<longrightarrow> f i = Fin (of_int (a + int i * b)))
           \<and> (0 < b \<longrightarrow> (\<forall>i j. i < j \<and> \<bar>a\<bar> + int j * \<bar>b\<bar> \<le> 2 ^ 53
                  \<longrightarrow> (\<exists>x y. f i = Fin x \<and> f j = Fin y \<and> x < y)))
           \<and> (b < 0 \<longrightarrow> (\<forall>i j. i < j \<and> \<bar>a\<bar> + int j * \<bar>b\<bar> \<le> 2 ^ 53
                  \<longrightarrow> (\<exists>x y. f i = Fin x \<and> f j = Fin y \<and> y < x)))
           \<and> (b = 0 \<longrightarrow> (\<forall>i. f i = f 0))"
    by (rule sequential_whole)
qed

text \<open>
  The theorem at \<open>start = 10\<close> with the steps 5, -2 and 0: row 3 for step 5 is 25, the
  rows 2 and 3 increase for step 5 and decrease for step -2, and row 3 for step 0 has
  the value of row 0.
\<close>

theorem sequential_numeric_binary64_witness:
  "switch_type (sequential_config 10 5) 3 Map.empty (constant_rng (1/2)) 0
     = Some (Inr ([''id'' \<mapsto> Num (Fin 25)], 0))
   \<and> (\<exists>x y. switch_type (sequential_config 10 5) 2 Map.empty (constant_rng (1/2)) 0
               = Some (Inr ([''id'' \<mapsto> Num (Fin x)], 0))
            \<and> switch_type (sequential_config 10 5) 3 Map.empty (constant_rng (1/2)) 0
               = Some (Inr ([''id'' \<mapsto> Num (Fin y)], 0))
            \<and> x < y)
   \<and> (\<exists>x y. switch_type (sequential_config 10 (- 2)) 2 Map.empty (constant_rng (1/2)) 0
               = Some (Inr ([''id'' \<mapsto> Num (Fin x)], 0))
            \<and> switch_type (sequential_config 10 (- 2)) 3 Map.empty (constant_rng (1/2)) 0
               = Some (Inr ([''id'' \<mapsto> Num (Fin y)], 0))
            \<and> y < x)
   \<and> (\<exists>v. switch_type (sequential_config 10 0) 0 Map.empty (constant_rng (1/2)) 0
             = Some (Inr ([''id'' \<mapsto> Num v], 0))
          \<and> switch_type (sequential_config 10 0) 3 Map.empty (constant_rng (1/2)) 0
             = Some (Inr ([''id'' \<mapsto> Num v], 0)))"
proof -
  have fields: "type (sequential_config (of_int a) (of_int b)) = ''5''"
    "start (sequential_config (of_int a) (of_int b)) = Some (Fin (of_int a))"
    "step (sequential_config (of_int a) (of_int b)) = Some (Fin (of_int b))"
    "header (sequential_config (of_int a) (of_int b)) = ''id''" for a b :: int
    by (simp_all add: sequential_config_def)
  note t = sequential_numeric_binary64
             [OF fields(1), THEN conjunct2, THEN conjunct2, THEN mp,
              OF conjI [OF fields(2) fields(3)]]
  have up: "(0::int) < 5" and down: "(- 2 :: int) < 0" and lt: "(2::nat) < 3"
    and b5: "\<bar>10 :: int\<bar> + int 3 * \<bar>5\<bar> \<le> 2 ^ 53"
    and b2: "\<bar>10 :: int\<bar> + int 3 * \<bar>- 2\<bar> \<le> 2 ^ 53"
    by simp_all
  from t [of 10 5] obtain f
    where sw: "\<forall>i row rng k. switch_type (sequential_config (of_int 10) (of_int 5)) i row rng k
                 = Some (Inr (row(header (sequential_config (of_int 10) (of_int 5)) \<mapsto>
                                Num (f i)), k))"
      and f: "\<forall>i. \<bar>10 :: int\<bar> + int i * \<bar>5\<bar> \<le> 2 ^ 53 \<longrightarrow> f i = Fin (of_int (10 + int i * 5))"
      and inc: "(0::int) < 5 \<longrightarrow> (\<forall>i j. i < j \<and> \<bar>10 :: int\<bar> + int j * \<bar>5\<bar> \<le> 2 ^ 53
                  \<longrightarrow> (\<exists>x y. f i = Fin x \<and> f j = Fin y \<and> x < y))"
    by (elim exE conjE)
  from inc up lt b5 obtain x y where xy: "f 2 = Fin x" "f 3 = Fin y" "x < y"
    by blast
  from f b5 have "f 3 = Fin (of_int (10 + int 3 * 5))"
    by blast
  then have f3: "f 3 = Fin 25"
    by simp
  have sw': "switch_type (sequential_config 10 5) i Map.empty (constant_rng (1/2)) 0
               = Some (Inr ([''id'' \<mapsto> Num (f i)], 0))" for i
    using sw fields(4) [of 10 5] by simp
  have A: "switch_type (sequential_config 10 5) 3 Map.empty (constant_rng (1/2)) 0
             = Some (Inr ([''id'' \<mapsto> Num (Fin 25)], 0))"
    using sw' [of 3] by (simp only: f3)
  have B: "\<exists>x y. switch_type (sequential_config 10 5) 2 Map.empty (constant_rng (1/2)) 0
               = Some (Inr ([''id'' \<mapsto> Num (Fin x)], 0))
            \<and> switch_type (sequential_config 10 5) 3 Map.empty (constant_rng (1/2)) 0
               = Some (Inr ([''id'' \<mapsto> Num (Fin y)], 0))
            \<and> x < y"
    using sw' [of 2] sw' [of 3] xy by (simp only:) blast
  from t [of 10 "- 2"] obtain g
    where sg: "\<forall>i row rng k. switch_type (sequential_config (of_int 10) (of_int (- 2))) i row rng k
                 = Some (Inr (row(header (sequential_config (of_int 10) (of_int (- 2))) \<mapsto>
                                Num (g i)), k))"
      and dec: "(- 2 :: int) < 0 \<longrightarrow> (\<forall>i j. i < j \<and> \<bar>10 :: int\<bar> + int j * \<bar>- 2\<bar> \<le> 2 ^ 53
                  \<longrightarrow> (\<exists>x y. g i = Fin x \<and> g j = Fin y \<and> y < x))"
    by (elim exE conjE)
  from dec down lt b2 obtain x' y' where xy': "g 2 = Fin x'" "g 3 = Fin y'" "y' < x'"
    by blast
  have sg': "switch_type (sequential_config 10 (- 2)) i Map.empty (constant_rng (1/2)) 0
               = Some (Inr ([''id'' \<mapsto> Num (g i)], 0))" for i
    using sg fields(4) [of 10 "- 2"] by simp
  have C: "\<exists>x y. switch_type (sequential_config 10 (- 2)) 2 Map.empty (constant_rng (1/2)) 0
               = Some (Inr ([''id'' \<mapsto> Num (Fin x)], 0))
            \<and> switch_type (sequential_config 10 (- 2)) 3 Map.empty (constant_rng (1/2)) 0
               = Some (Inr ([''id'' \<mapsto> Num (Fin y)], 0))
            \<and> y < x"
    using sg' [of 2] sg' [of 3] xy' by (simp only:) blast
  from t [of 10 0] obtain c
    where sc: "\<forall>i row rng k. switch_type (sequential_config (of_int 10) (of_int 0)) i row rng k
                 = Some (Inr (row(header (sequential_config (of_int 10) (of_int 0)) \<mapsto>
                                Num (c i)), k))"
      and const: "(0::int) = 0 \<longrightarrow> (\<forall>i. c i = c 0)"
    by (elim exE conjE)
  from const have c3: "c 3 = c 0"
    by simp
  have sc': "switch_type (sequential_config 10 0) i Map.empty (constant_rng (1/2)) 0
               = Some (Inr ([''id'' \<mapsto> Num (c i)], 0))" for i
    using sc fields(4) [of 10 0] by simp
  have D: "\<exists>v. switch_type (sequential_config 10 0) 0 Map.empty (constant_rng (1/2)) 0
             = Some (Inr ([''id'' \<mapsto> Num v], 0))
          \<and> switch_type (sequential_config 10 0) 3 Map.empty (constant_rng (1/2)) 0
             = Some (Inr ([''id'' \<mapsto> Num v], 0))"
    using sc' [of 0] sc' [of 3] c3 by (simp only:) blast
  from A B C D show ?thesis
    by (intro conjI)
qed

text \<open>
  Beyond \<open>2^53\<close> the sum is rounded: with \<open>start = 2^53\<close> and \<open>step = 1\<close> the rows 0 and 1
  both have the value \<open>2^53\<close>, so that row 1 is not \<open>start + step\<close> and the values do not
  increase although the step is positive.
\<close>

theorem sequential_rounded_counterexample:
  "switch_type (sequential_config (2 ^ 53) 1) 0 Map.empty (constant_rng (1/2)) 0
     = Some (Inr ([''id'' \<mapsto> Num (Fin (2 ^ 53))], 0))
   \<and> switch_type (sequential_config (2 ^ 53) 1) 1 Map.empty (constant_rng (1/2)) 0
     = Some (Inr ([''id'' \<mapsto> Num (Fin (2 ^ 53))], 0))
   \<and> (0 :: real) < 1 \<and> (2 :: real) ^ 53 \<noteq> 2 ^ 53 + 1"
proof -
  have big: "round64 (2 ^ 53) = Fin (2 ^ 53)"
    using round64_of_int [of "2 ^ 53"] by simp
  have row0: "num_add (Fin (2 ^ 53)) (num_mul (Fin (real 0)) (Fin 1)) = Fin (2 ^ 53)"
    by (simp only: of_nat_0 num_mul.simps num_add.simps mult_zero_left round64_0 add_0_right big)
  have row1: "num_add (Fin (2 ^ 53)) (num_mul (Fin (real 1)) (Fin 1)) = Fin (2 ^ 53)"
    by (simp only: of_nat_1 num_mul.simps num_add.simps mult_1 round64_1 round64_tie_example)
  have fields: "type (sequential_config (2 ^ 53) 1) = ''5''"
    "start (sequential_config (2 ^ 53) 1) = Some (Fin (2 ^ 53))"
    "step (sequential_config (2 ^ 53) 1) = Some (Fin 1)"
    "header (sequential_config (2 ^ 53) 1) = ''id''"
    by (simp_all add: sequential_config_def)
  have a: "switch_type (sequential_config (2 ^ 53) 1) 0 Map.empty (constant_rng (1/2)) 0
     = Some (Inr ([''id'' \<mapsto> Num (Fin (2 ^ 53))], 0))"
    unfolding switch_type_5 [OF fields(1-3)] row0 fields(4) ..
  have b: "switch_type (sequential_config (2 ^ 53) 1) 1 Map.empty (constant_rng (1/2)) 0
     = Some (Inr ([''id'' \<mapsto> Num (Fin (2 ^ 53))], 0))"
    unfolding switch_type_5 [OF fields(1-3)] row1 fields(4) ..
  from a b show ?thesis
    by simp
qed

section \<open>The generation loop\<close>

lemma for_i_stop:
  "\<not> num_less (Fin (real i)) numRecords \<Longrightarrow>
     for_i cfgs numRecords i outputData rng k = Some (Inr (outputData, k))"
  by (subst for_i.simps) simp

lemma for_i_step:
  "num_less (Fin (real i)) numRecords \<Longrightarrow>
     for_config cfgs i Map.empty rng k = Some (Inr (row, k')) \<Longrightarrow>
     for_i cfgs numRecords i outputData rng k
       = for_i cfgs numRecords (Suc i) (outputData @ [row]) rng k'"
  by (subst for_i.simps) simp

lemma for_i_error:
  "num_less (Fin (real i)) numRecords \<Longrightarrow>
     for_config cfgs i Map.empty rng k = Some (Inl e) \<Longrightarrow>
     for_i cfgs numRecords i outputData rng k = Some (Inl e)"
  by (subst for_i.simps) simp

section \<open>Values from list, repeating\<close>

lemma switch_type_6:
  assumes "type c = ''6''" and "list c = Some vs" and "vs \<noteq> []"
  shows "switch_type c i row rng k
           = Some (Inr (row(header c \<mapsto> vs ! (i mod length vs)), k))"
  using assms by (simp add: switch_type_def rem_length_def element_at_def)

lemma for_i_cyclic:
  assumes "type c = ''6''" and "list c = Some vs" and "vs \<noteq> []"
  shows "i \<le> n \<Longrightarrow>
     for_i [c] (Fin (real n)) i acc rng k
       = Some (Inr (acc @ map (\<lambda>j. [header c \<mapsto> vs ! (j mod length vs)]) [i..<n], k))"
proof (induction "n - i" arbitrary: i acc)
  case 0
  then have "i = n" by simp
  then show ?case by (simp add: for_i_stop)
next
  case (Suc d)
  then have lt: "i < n" by simp
  have row: "for_config [c] i Map.empty rng k
               = Some (Inr ([header c \<mapsto> vs ! (i mod length vs)], k))"
    by (simp add: switch_type_6 [OF assms])
  have "for_i [c] (Fin (real n)) i acc rng k
          = for_i [c] (Fin (real n)) (Suc i)
              (acc @ [[header c \<mapsto> vs ! (i mod length vs)]]) rng k"
    using lt by (intro for_i_step row) simp
  also have "\<dots> = Some (Inr ((acc @ [[header c \<mapsto> vs ! (i mod length vs)]])
                     @ map (\<lambda>j. [header c \<mapsto> vs ! (j mod length vs)]) [Suc i..<n], k))"
    using Suc lt by (intro Suc.hyps(1)) simp_all
  finally show ?case using lt by (simp add: upt_conv_Cons)
qed

lemma cycle_twice:
  assumes "vs \<noteq> []"
  shows "map (\<lambda>j. vs ! (j mod length vs)) [0..<2 * length vs] = vs @ vs"
proof -
  let ?L = "length vs"
  have "map (\<lambda>j. vs ! (j mod ?L)) [0..<?L] = map (\<lambda>j. vs ! j) [0..<?L]"
    by (rule map_cong [OF refl]) simp
  then have a: "map (\<lambda>j. vs ! (j mod ?L)) [0..<?L] = vs"
    by (simp only: map_nth)
  have "[?L..<?L + ?L] = map (\<lambda>j. j + ?L) [0..<?L]"
    by (simp only: map_add_upt)
  then have "map (\<lambda>j. vs ! (j mod ?L)) [?L..<?L + ?L]
               = map (\<lambda>j. vs ! ((j + ?L) mod ?L)) [0..<?L]"
    by (simp only: map_map comp_def)
  also have "\<dots> = map (\<lambda>j. vs ! (j mod ?L)) [0..<?L]"
    by (simp only: mod_add_self2)
  finally have b: "map (\<lambda>j. vs ! (j mod ?L)) [?L..<?L + ?L] = vs"
    using a by simp
  have "[0..<2 * ?L] = [0..<?L] @ [?L..<?L + ?L]"
    by (simp only: mult_2 upt_add_eq_append [OF le0])
  then have "map (\<lambda>j. vs ! (j mod ?L)) [0..<2 * ?L]
      = map (\<lambda>j. vs ! (j mod ?L)) [0..<?L] @ map (\<lambda>j. vs ! (j mod ?L)) [?L..<?L + ?L]"
    by (simp only: map_append)
  then show ?thesis by (simp only: a b)
qed

text \<open>
  Claim C2. For a configuration of type \<open>'6'\<close> with a non-empty list of length \<open>L\<close> the
  value generated for row \<open>i\<close> is \<open>values[i mod L]\<close>; generating the rows \<open>0\<close> to
  \<open>2L - 1\<close> yields the list twice, back to back; and five rows over the list
  \<open>["x", "y"]\<close> are \<open>x, y, x, y, x\<close> in row order.
\<close>

theorem cyclic_list_wraps:
  assumes "type c = ''6''" and "list c = Some vs" and "vs \<noteq> []"
  shows "switch_type c i row rng k
           = Some (Inr (row(header c \<mapsto> vs ! (i mod length vs)), k))
       \<and> generate [c] (Fin (real (2 * length vs))) rng k
           = Some (Inr (map (\<lambda>v. [header c \<mapsto> v]) (vs @ vs), k))
       \<and> generate [\<lparr>header = ''c'', type = ''6'', min_cfg = None, max_cfg = None,
                     list = Some [Str ''x'', Str ''y''], length_cfg = None, prefix = None,
                     start = None, step = None\<rparr>] (Fin 5) rng k
           = Some (Inr ([[''c'' \<mapsto> Str ''x''], [''c'' \<mapsto> Str ''y''],
                         [''c'' \<mapsto> Str ''x''], [''c'' \<mapsto> Str ''y''],
                         [''c'' \<mapsto> Str ''x'']], k))"
proof (intro conjI)
  show "switch_type c i row rng k
          = Some (Inr (row(header c \<mapsto> vs ! (i mod length vs)), k))"
    by (rule switch_type_6 [OF assms])
next
  have "generate [c] (Fin (real (2 * length vs))) rng k
          = Some (Inr (map (\<lambda>j. [header c \<mapsto> vs ! (j mod length vs)])
                         [0..<2 * length vs], k))"
    unfolding generate_def using for_i_cyclic [OF assms, of 0 "2 * length vs" "[]" rng k]
    by simp
  also have "map (\<lambda>j. [header c \<mapsto> vs ! (j mod length vs)]) [0..<2 * length vs]
               = map (\<lambda>v. [header c \<mapsto> v]) (map (\<lambda>j. vs ! (j mod length vs)) [0..<2 * length vs])"
    by (simp add: comp_def)
  also have "\<dots> = map (\<lambda>v. [header c \<mapsto> v]) (vs @ vs)"
    by (simp only: cycle_twice [OF assms(3)])
  finally show "generate [c] (Fin (real (2 * length vs))) rng k
           = Some (Inr (map (\<lambda>v. [header c \<mapsto> v]) (vs @ vs), k))" .
next
  let ?c = "\<lparr>header = ''c'', type = ''6'', min_cfg = None, max_cfg = None,
                     list = Some [Str ''x'', Str ''y''], length_cfg = None, prefix = None,
                     start = None, step = None\<rparr>"
  have five: "map (\<lambda>j. [Str ''x'', Str ''y''] ! (j mod length [Str ''x'', Str ''y''])) [0..<5]
                = [Str ''x'', Str ''y'', Str ''x'', Str ''y'', Str ''x'']"
    by code_simp
  have "for_i [?c] (Fin (real (5::nat))) 0 [] rng k
          = Some (Inr ([] @ map (\<lambda>j. [header ?c \<mapsto> [Str ''x'', Str ''y''] ! (j mod length [Str ''x'', Str ''y''])]) [0..<5], k))"
    by (rule for_i_cyclic) simp_all
  also have "map (\<lambda>j. [header ?c \<mapsto> [Str ''x'', Str ''y''] ! (j mod length [Str ''x'', Str ''y''])]) [0..<5]
      = map (\<lambda>v. [''c'' \<mapsto> v]) (map (\<lambda>j. [Str ''x'', Str ''y''] ! (j mod length [Str ''x'', Str ''y''])) [0..<5])"
    by (simp add: comp_def)
  finally show "generate [?c] (Fin 5) rng k
           = Some (Inr ([[''c'' \<mapsto> Str ''x''], [''c'' \<mapsto> Str ''y''],
                         [''c'' \<mapsto> Str ''x''], [''c'' \<mapsto> Str ''y''],
                         [''c'' \<mapsto> Str ''x'']], k))"
    unfolding five by (simp add: generate_def)
qed

text \<open>The theorem at the list \<open>["a", "b", "c"]\<close>: row 4 and the rows 0 to 5.\<close>

theorem cyclic_list_wraps_witness:
  "switch_type \<lparr>header = ''c'', type = ''6'', min_cfg = None, max_cfg = None,
       list = Some [Str ''a'', Str ''b'', Str ''c''], length_cfg = None, prefix = None,
       start = None, step = None\<rparr> 4 Map.empty (constant_rng 0) 0
     = Some (Inr ([''c'' \<mapsto> Str ''b''], 0))
   \<and> generate [\<lparr>header = ''c'', type = ''6'', min_cfg = None, max_cfg = None,
       list = Some [Str ''a'', Str ''b'', Str ''c''], length_cfg = None, prefix = None,
       start = None, step = None\<rparr>] (Fin 6) (constant_rng 0) 0
     = Some (Inr ([[''c'' \<mapsto> Str ''a''], [''c'' \<mapsto> Str ''b''], [''c'' \<mapsto> Str ''c''],
                   [''c'' \<mapsto> Str ''a''], [''c'' \<mapsto> Str ''b''], [''c'' \<mapsto> Str ''c'']], 0))"
proof -
  let ?vs = "[Str ''a'', Str ''b'', Str ''c'']"
  let ?c = "\<lparr>header = ''c'', type = ''6'', min_cfg = None, max_cfg = None,
       list = Some ?vs, length_cfg = None, prefix = None,
       start = None, step = None\<rparr>"
  have h1: "type ?c = ''6''" and h2: "list ?c = Some ?vs"
    and h3: "?vs \<noteq> []"
    by simp_all
  note t = cyclic_list_wraps [OF h1 h2 h3, of 4 Map.empty "constant_rng 0" 0]
  have len: "real (2 * length ?vs) = 6" by simp
  have four: "?vs ! (4 mod length ?vs) = Str ''b''" by simp
  from t have a: "switch_type ?c 4 Map.empty (constant_rng 0) 0
                    = Some (Inr ([header ?c \<mapsto> ?vs ! (4 mod length ?vs)], 0))"
    by (rule conjunct1)
  from t have b: "generate [?c] (Fin (real (2 * length ?vs))) (constant_rng 0) 0
                    = Some (Inr (map (\<lambda>v. [header ?c \<mapsto> v]) (?vs @ ?vs), 0))"
    by (elim conjE)
  from a have a': "switch_type ?c 4 Map.empty (constant_rng 0) 0
                     = Some (Inr ([''c'' \<mapsto> Str ''b''], 0))"
    unfolding four by simp
  from b have b': "generate [?c] (Fin 6) (constant_rng 0) 0
     = Some (Inr ([[''c'' \<mapsto> Str ''a''], [''c'' \<mapsto> Str ''b''], [''c'' \<mapsto> Str ''c''],
                   [''c'' \<mapsto> Str ''a''], [''c'' \<mapsto> Str ''b''], [''c'' \<mapsto> Str ''c'']], 0))"
    unfolding len by simp
  from a' b' show ?thesis by (rule conjI)
qed

section \<open>Configurations of an unrecognized type\<close>

lemma switch_type_other:
  assumes "type c \<notin> {''1'', ''2'', ''3'', ''4'', ''5'', ''6'', ''7''}"
  shows "switch_type c i row rng k = Some (Inr (row, k))"
  using assms by (simp add: switch_type_def)

lemma for_config_other:
  assumes "type c \<notin> {''1'', ''2'', ''3'', ''4'', ''5'', ''6'', ''7''}"
  shows "for_config (before @ c # after) i row rng k = for_config (before @ after) i row rng k"
proof (induction before arbitrary: row k)
  case Nil
  show ?case by (simp add: switch_type_other [OF assms])
next
  case (Cons b before)
  show ?case
  proof (cases "switch_type b i row rng k")
    case None
    then show ?thesis by simp
  next
    case (Some r)
    show ?thesis
    proof (cases r)
      case (Inl e)
      with Some show ?thesis by simp
    next
      case (Inr p)
      obtain row1 k1 where "p = (row1, k1)" by (cases p)
      with Some Inr Cons.IH show ?thesis by simp
    qed
  qed
qed

text \<open>
  The loop only uses the configurations to build the records: two lists of
  configurations that build the same records give the same result, also when the loop
  does not return.
\<close>

lemma for_i_same_Some:
  assumes run: "for_i cfgs numRecords i acc rng k = Some y"
    and same: "\<And>i k. for_config cfgs i Map.empty rng k = for_config cfgs' i Map.empty rng k"
  shows "for_i cfgs' numRecords i acc rng k = Some y"
proof -
  have "cfgs = cfgs \<longrightarrow> rng = rng \<longrightarrow> for_i cfgs' numRecords i acc rng k = Some y"
  proof (rule for_i.raw_induct
      [where P = "\<lambda>c n j out r m z.
                    c = cfgs \<longrightarrow> r = rng \<longrightarrow> for_i cfgs' n j out r m = Some z",
        OF _ run], intro impI)
    fix loop c n j out r m z
    assume IH: "\<And>c n j out r m z. loop c n j out r m = Some z \<Longrightarrow>
                  c = cfgs \<longrightarrow> r = rng \<longrightarrow> for_i cfgs' n j out r m = Some z"
      and body: "(if num_less (Fin (real j)) n
                  then case for_config c j Map.empty r m of
                         None \<Rightarrow> None
                       | Some (Inl e) \<Rightarrow> Some (Inl e)
                       | Some (Inr (row, k')) \<Rightarrow> loop c n (Suc j) (out @ [row]) r k'
                  else Some (Inr (out, m))) = Some z"
      and c: "c = cfgs" and r: "r = rng"
    show "for_i cfgs' n j out r m = Some z"
    proof (cases "num_less (Fin (real j)) n")
      case False
      with body show ?thesis by (simp add: for_i_stop)
    next
      case True
      show ?thesis
      proof (cases "for_config cfgs j Map.empty rng m")
        case None
        with body True c r show ?thesis by simp
      next
        case (Some res)
        show ?thesis
        proof (cases res)
          case (Inl e)
          with Some have other: "for_config cfgs' j Map.empty r m = Some (Inl e)"
            by (simp add: same [symmetric] r)
          from body True Some Inl c r have "z = Inl e"
            by simp
          with for_i_error [OF True other] show ?thesis by simp
        next
          case (Inr p)
          obtain row k1 where p: "p = (row, k1)" by (cases p)
          with Some Inr have other: "for_config cfgs' j Map.empty r m = Some (Inr (row, k1))"
            by (simp add: same [symmetric] r)
          from body True Some Inr p c r
          have "loop c n (Suc j) (out @ [row]) r k1 = Some z"
            by simp
          from IH [OF this] c r
          have "for_i cfgs' n (Suc j) (out @ [row]) r k1 = Some z"
            by simp
          with for_i_step [OF True other] show ?thesis by simp
        qed
      qed
    qed
  qed
  then show ?thesis by simp
qed

lemma for_i_same:
  assumes same: "\<And>i k. for_config cfgs i Map.empty rng k = for_config cfgs' i Map.empty rng k"
  shows "for_i cfgs numRecords i acc rng k = for_i cfgs' numRecords i acc rng k"
proof (cases "for_i cfgs numRecords i acc rng k")
  case (Some y)
  from for_i_same_Some [OF Some same] Some show ?thesis
    by simp
next
  case None
  show ?thesis
  proof (cases "for_i cfgs' numRecords i acc rng k")
    case None': None
    with None show ?thesis by simp
  next
    case (Some y)
    from for_i_same_Some [OF Some same [symmetric]] None show ?thesis
      by simp
  qed
qed

text \<open>
  Claim C10, in the form that holds of the code.
  A configuration whose type is none of \<open>'1'\<close> to \<open>'7'\<close> does not
  make generation fail: the switch leaves the record as it is and consumes no draw, so
  the generated table is the one generated without that configuration, and its records
  have no value for that configuration's column.
\<close>

theorem unrecognized_type_skipped:
  assumes "type c \<notin> {''1'', ''2'', ''3'', ''4'', ''5'', ''6'', ''7''}"
  shows "switch_type c i row rng k = Some (Inr (row, k))
       \<and> generate (before @ c # after) numRecords rng k
           = generate (before @ after) numRecords rng k"
proof
  show "switch_type c i row rng k = Some (Inr (row, k))"
    by (rule switch_type_other [OF assms])
next
  show "generate (before @ c # after) numRecords rng k
          = generate (before @ after) numRecords rng k"
    unfolding generate_def by (rule for_i_same) (rule for_config_other [OF assms])
qed

lemma for_i_two_rows:
  assumes "for_config cfgs 0 Map.empty rng k = Some (Inr (row0, k))"
    and "for_config cfgs (Suc 0) Map.empty rng k = Some (Inr (row1, k))"
  shows "generate cfgs (Fin 2) rng k = Some (Inr ([row0, row1], k))"
proof -
  have "for_i cfgs (Fin 2) 0 [] rng k = for_i cfgs (Fin 2) (Suc 0) ([] @ [row0]) rng k"
    by (rule for_i_step [OF _ assms(1)]) simp
  also have "\<dots> = for_i cfgs (Fin 2) (Suc (Suc 0)) (([] @ [row0]) @ [row1]) rng k"
    by (rule for_i_step [OF _ assms(2)]) simp
  also have "\<dots> = Some (Inr (([] @ [row0]) @ [row1], k))"
    by (rule for_i_stop) simp
  finally show ?thesis by (simp add: generate_def)
qed

text \<open>The theorem at a configuration of type \<open>'9'\<close> placed before a sequential column.\<close>

theorem unrecognized_type_skipped_witness:
  "switch_type \<lparr>header = ''a'', type = ''9'', min_cfg = None, max_cfg = None, list = None,
       length_cfg = None, prefix = None, start = None, step = None\<rparr>
     0 Map.empty (constant_rng (1/2)) 0 = Some (Inr (Map.empty, 0))
   \<and> generate
       [\<lparr>header = ''a'', type = ''9'', min_cfg = None, max_cfg = None, list = None,
           length_cfg = None, prefix = None, start = None, step = None\<rparr>,
        \<lparr>header = ''id'', type = ''5'', min_cfg = None, max_cfg = None, list = None,
           length_cfg = None, prefix = None, start = Some (Fin 1), step = Some (Fin 1)\<rparr>]
       (Fin 2) (constant_rng (1/2)) 0
     = Some (Inr ([[''id'' \<mapsto> Num (Fin 1)], [''id'' \<mapsto> Num (Fin 2)]], 0))"
proof -
  let ?c = "\<lparr>header = ''a'', type = ''9'', min_cfg = None, max_cfg = None, list = None,
       length_cfg = None, prefix = None, start = None, step = None\<rparr>"
  let ?s = "\<lparr>header = ''id'', type = ''5'', min_cfg = None, max_cfg = None, list = None,
           length_cfg = None, prefix = None, start = Some (Fin 1), step = Some (Fin 1)\<rparr>"
  have h: "type ?c \<notin> {''1'', ''2'', ''3'', ''4'', ''5'', ''6'', ''7''}" by simp
  note t = unrecognized_type_skipped
             [OF h, of 0 Map.empty "constant_rng (1/2)" 0 "[]" "[?s]" "Fin 2"]
  have without: "generate [?s] (Fin 2) (constant_rng (1/2)) 0
                   = Some (Inr ([[''id'' \<mapsto> Num (Fin 1)], [''id'' \<mapsto> Num (Fin 2)]], 0))"
    by (rule for_i_two_rows) (simp_all add: switch_type_def round64_small)
  from t have a: "switch_type ?c 0 Map.empty (constant_rng (1/2)) 0 = Some (Inr (Map.empty, 0))"
    by (rule conjunct1)
  from t have "generate ([] @ ?c # [?s]) (Fin 2) (constant_rng (1/2)) 0
                 = generate ([] @ [?s]) (Fin 2) (constant_rng (1/2)) 0"
    by (rule conjunct2)
  then have b: "generate [?c, ?s] (Fin 2) (constant_rng (1/2)) 0
                 = Some (Inr ([[''id'' \<mapsto> Num (Fin 1)], [''id'' \<mapsto> Num (Fin 2)]], 0))"
    using without by simp
  from a b show ?thesis by (rule conjI)
qed

text \<open>
  Two rows for a single configuration of type \<open>'9'\<close>: generation returns two empty
  records instead of failing.
\<close>

theorem unrecognized_type_counterexample:
  "generate
     [\<lparr>header = ''a'', type = ''9'', min_cfg = None, max_cfg = None, list = None,
         length_cfg = None, prefix = None, start = None, step = None\<rparr>]
     (Fin 2) (constant_rng (1/2)) 0
   = Some (Inr ([Map.empty, Map.empty], 0))"
  by (rule for_i_two_rows) (simp_all add: switch_type_def)

section \<open>Random strings\<close>

lemma length_chars: "length chars = 62"
  by (simp add: chars_def)

text \<open>
  A draw \<open>m / 2^53\<close> times 62 is below \<open>62 - 62 / 2^53\<close>, and rounding the product moves
  it by at most \<open>2^-48 = 32 / 2^53\<close>: the position stays below 62.
\<close>

lemma charAt_draw:
  fixes m :: int
  assumes "0 \<le> m" and "m < 2 ^ 53"
  shows "\<exists>c. charAt chars
               (Math_floor (num_mul (Fin (of_int m / 2 ^ 53)) (Fin (real (length chars))))) = [c]
             \<and> c \<in> set chars"
proof -
  define x :: real where "x = of_int m / 2 ^ 53 * 62"
  have "m \<le> 2 ^ 53 - 1"
    using assms(2) by simp
  then have "(of_int m :: real) \<le> of_int (2 ^ 53 - 1)"
    by (simp only: of_int_le_iff)
  then have m_le: "(of_int m :: real) \<le> 2 ^ 53 - 1"
    by simp
  have "(0 :: real) \<le> of_int m"
    using assms(1) by simp
  then have x0: "0 \<le> x"
    by (simp add: x_def)
  have x_le: "x \<le> 62 - 62 / 2 ^ 53"
    using m_le by (simp add: x_def)
  then have "x < 64"
    by simp
  then have "x * 2 ^ 1022 < 64 * 2 ^ 1022"
    by (simp only: mult_less_cancel_right_pos zero_less_power zero_less_numeral)
  then have binade: "x * 2 ^ 1022 < 2 ^ Suc 1027"
    by simp
  from round64_error [OF x0 binade] obtain y
    where y: "round64 x = Fin y" and y0: "0 \<le> y" and err: "\<bar>y - x\<bar> \<le> 2 ^ 1027 / 2 ^ 1075"
    by auto
  have "(2 :: real) ^ 1027 / 2 ^ 1075 = 32 / 2 ^ 53"
    by simp
  with err have "\<bar>y - x\<bar> \<le> 32 / 2 ^ 53"
    by (simp only:)
  then have "y - x \<le> 32 / 2 ^ 53"
    by (rule order_trans [OF abs_ge_self])
  with x_le have y_lt: "y < 62"
    by simp
  let ?p = "\<lfloor>y\<rfloor>"
  have lo: "0 \<le> ?p"
    using y0 by simp
  have hi: "?p < 62"
    using y_lt by (simp add: floor_less_iff)
  have in_range: "nat ?p < length chars"
    unfolding length_chars using lo hi by linarith
  have "num_mul (Fin (of_int m / 2 ^ 53)) (Fin (real (length chars))) = Fin y"
    using y by (simp add: length_chars x_def)
  then have "charAt chars
               (Math_floor (num_mul (Fin (of_int m / 2 ^ 53)) (Fin (real (length chars)))))
          = [chars ! nat ?p]"
    using lo in_range y0 by (simp add: charAt_def)
  moreover have "chars ! nat ?p \<in> set chars"
    using in_range by (rule nth_mem)
  ultimately show ?thesis by blast
qed

lemma getRandomString_loop_stop:
  "\<not> num_less (Fin (real i)) n \<Longrightarrow>
     getRandomString_loop n i result rng k = Some (result, k)"
  by (subst getRandomString_loop.simps) simp

lemma getRandomString_loop_step:
  "num_less (Fin (real i)) n \<Longrightarrow>
     getRandomString_loop n i result rng k
       = getRandomString_loop n (Suc i)
           (result @ charAt chars
              (Math_floor (num_mul (fst (Math_random rng k)) (Fin (real (length chars))))))
           rng (Suc k)"
  by (subst getRandomString_loop.simps) (simp add: Math_random_def)

lemma getRandomString_loop_chars:
  assumes draws: "\<forall>j. 0 \<le> rng j \<and> rng j < 1"
  shows "i \<le> N \<Longrightarrow>
     \<exists>s. getRandomString_loop (Fin (real N)) i result rng k = Some (result @ s, k + (N - i))
         \<and> length s = N - i \<and> set s \<subseteq> set chars"
proof (induction "N - i" arbitrary: i result k)
  case 0
  then have "i = N" by simp
  then show ?case by (simp add: getRandomString_loop_stop)
next
  case (Suc d)
  then have lt: "i < N" by simp
  from draws have "0 \<le> rng k" and "rng k < 1" by simp_all
  then obtain m :: int
    where draw: "Math_random rng k = (Fin (of_int m / 2 ^ 53), Suc k)"
      and m: "0 \<le> m" "m < 2 ^ 53"
    by (rule Math_random_draw)
  from charAt_draw [OF m] obtain c
    where c: "charAt chars
                (Math_floor (num_mul (Fin (of_int m / 2 ^ 53)) (Fin (real (length chars))))) = [c]"
      and c_in: "c \<in> set chars"
    by blast
  have "num_less (Fin (real i)) (Fin (real N))"
    using lt by simp
  from getRandomString_loop_step [OF this, of result rng k]
  have step: "getRandomString_loop (Fin (real N)) i result rng k
                = getRandomString_loop (Fin (real N)) (Suc i) (result @ [c]) rng (Suc k)"
    unfolding draw fst_conv c .
  have "d = N - Suc i" and "Suc i \<le> N"
    using Suc.hyps(2) lt by simp_all
  from Suc.hyps(1) [OF this] obtain s
    where rest: "getRandomString_loop (Fin (real N)) (Suc i) (result @ [c]) rng (Suc k)
                   = Some ((result @ [c]) @ s, Suc k + (N - Suc i))"
      and len: "length s = N - Suc i" and sub: "set s \<subseteq> set chars"
    by blast
  have "getRandomString_loop (Fin (real N)) i result rng k
          = Some (result @ (c # s), k + (N - i))"
    using step rest lt by simp
  moreover have "length (c # s) = N - i" using len lt by simp
  moreover have "set (c # s) \<subseteq> set chars" using sub c_in by simp
  ultimately show ?case by blast
qed

text \<open>
  Claim C4. For every non-negative integer \<open>N\<close> and every random source whose draws lie in
  \<open>[0, 1)\<close>, \<open>getRandomString(N)\<close> returns a string of exactly \<open>N\<close> characters, each
  from the alphabet of 62 distinct symbols (26 upper-case letters, 26 lower-case letters,
  10 digits), using \<open>N\<close> draws; for \<open>N = 0\<close> it returns the empty string; and
  \<open>getRandomStringWithPrefix(prefix, N)\<close> returns the prefix followed by that string.
\<close>

theorem random_string_length_and_alphabet:
  assumes "\<forall>j. 0 \<le> rng j \<and> rng j < 1"
  shows "(\<exists>s. getRandomString (Fin (real N)) rng k = Some (s, k + N)
             \<and> length s = N \<and> set s \<subseteq> set chars
             \<and> getRandomStringWithPrefix pre (Fin (real N)) rng k = Some (pre @ s, k + N))
       \<and> getRandomString (Fin 0) rng k = Some ([], k)
       \<and> chars = ''ABCDEFGHIJKLMNOPQRSTUVWXYZ'' @ ''abcdefghijklmnopqrstuvwxyz'' @ ''0123456789''
       \<and> distinct chars \<and> length chars = 62"
proof (intro conjI)
  from getRandomString_loop_chars [OF assms, of 0 N "[]" k] obtain s
    where s: "getRandomString (Fin (real N)) rng k = Some (s, k + N)"
      and props: "length s = N" "set s \<subseteq> set chars"
    by (auto simp: getRandomString_def)
  from s have "getRandomStringWithPrefix pre (Fin (real N)) rng k = Some (pre @ s, k + N)"
    by (simp add: getRandomStringWithPrefix_def)
  with s props
  show "\<exists>s. getRandomString (Fin (real N)) rng k = Some (s, k + N)
             \<and> length s = N \<and> set s \<subseteq> set chars
             \<and> getRandomStringWithPrefix pre (Fin (real N)) rng k = Some (pre @ s, k + N)"
    by blast
next
  show "getRandomString (Fin 0) rng k = Some ([], k)"
    by (simp add: getRandomString_def getRandomString_loop_stop)
next
  show "chars = ''ABCDEFGHIJKLMNOPQRSTUVWXYZ'' @ ''abcdefghijklmnopqrstuvwxyz'' @ ''0123456789''"
    by (simp add: chars_def)
next
  show "distinct chars" by (simp add: chars_def)
next
  show "length chars = 62" by (rule length_chars)
qed

text \<open>The theorem at \<open>N = 3\<close>, the prefix \<open>ID-\<close> and the constant draw 1/2.\<close>

theorem random_string_length_and_alphabet_witness:
  "\<exists>s. getRandomString (Fin 3) (constant_rng (1/2)) 0 = Some (s, 3)
       \<and> length s = 3 \<and> set s \<subseteq> set chars
       \<and> getRandomStringWithPrefix ''ID-'' (Fin 3) (constant_rng (1/2)) 0
           = Some (''ID-'' @ s, 3)"
proof -
  have h: "\<forall>j. 0 \<le> constant_rng (1/2) j \<and> constant_rng (1/2) j < 1"
    by (simp add: constant_rng_def)
  from random_string_length_and_alphabet [OF h, of 3 0 "''ID-''", THEN conjunct1]
  show ?thesis by simp
qed

text \<open>With the constant draw 1/2 every character is \<open>chars[31]\<close>, the letter f.\<close>

lemma random_string_example:
  "getRandomString (Fin 3) (constant_rng (1/2)) 0 = Some (''fff'', 3)"
proof -
  have c: "charAt chars
             (Math_floor (num_mul (fst (Math_random (constant_rng (1/2)) k))
                            (Fin (real (length chars))))) = ''f''" for k
    by (simp add: Math_random_half length_chars round64_small charAt_def chars_def)
  show ?thesis
    by (simp add: getRandomString_def getRandomString_loop_step getRandomString_loop_stop c)
qed

text \<open>
  The loop returns for every length but \<open>Infinity\<close>: the counter passes any finite
  length, and the comparison with \<open>NaN\<close> or \<open>-Infinity\<close> fails at once. With the length
  \<open>Infinity\<close> it does not return.
\<close>

lemma getRandomString_loop_returns:
  assumes "n \<noteq> PInf"
  shows "\<exists>s k'. getRandomString_loop n i result rng k = Some (s, k')"
proof (cases "\<exists>x. n = Fin x")
  case False
  with assms have "\<not> num_less (Fin (real i)) n"
    by (cases n) simp_all
  then show ?thesis
    by (simp add: getRandomString_loop_stop)
next
  case True
  then obtain x where n: "n = Fin x" by blast
  show ?thesis
    unfolding n
  proof (induction "nat \<lceil>x\<rceil> - i" arbitrary: i result k)
    case 0
    then have "x \<le> real i"
      by simp
    then have "\<not> num_less (Fin (real i)) (Fin x)"
      by simp
    then show ?case
      by (simp add: getRandomString_loop_stop)
  next
    case (Suc d)
    show ?case
    proof (cases "num_less (Fin (real i)) (Fin x)")
      case False
      then show ?thesis
        by (simp add: getRandomString_loop_stop)
    next
      case True
      from Suc.hyps(2) have "d = nat \<lceil>x\<rceil> - Suc i"
        by simp
      from Suc.hyps(1) [OF this] show ?thesis
        by (simp only: getRandomString_loop_step [OF True])
    qed
  qed
qed

lemma getRandomString_loop_Infinity:
  "getRandomString_loop PInf i result rng k = None"
proof (cases "getRandomString_loop PInf i result rng k")
  case None
  then show ?thesis .
next
  case (Some y)
  have "PInf \<noteq> PInf"
  proof (rule getRandomString_loop.raw_induct
      [where P = "\<lambda>n j res r m z. n \<noteq> PInf", OF _ Some])
    fix loop n j res r m z
    assume IH: "\<And>n j res r m z. loop n j res r m = Some z \<Longrightarrow> n \<noteq> PInf"
      and body: "(if num_less (Fin (real j)) n
                  then let (d, k') = Math_random r m
                       in loop n (Suc j)
                            (res @ charAt chars (Math_floor (num_mul d (Fin (real (length chars))))))
                            r k'
                  else Some (res, m)) = Some z"
    show "n \<noteq> PInf"
    proof
      assume "n = PInf"
      with body have "\<exists>res' k'. loop n (Suc j) res' r k' = Some z"
        by (auto simp: Math_random_def)
      with IH show False
        using \<open>n = PInf\<close> by blast
    qed
  qed
  then show ?thesis by simp
qed

section \<open>The number of generated records\<close>

lemma switch_type_returns:
  assumes "type c \<in> {''2'', ''3'', ''6''} \<longrightarrow> list c \<noteq> None"
    and "type c \<in> {''4'', ''7''} \<longrightarrow> length_cfg c \<noteq> Some PInf"
  shows "\<exists>row' k'. switch_type c i row rng k = Some (Inr (row', k'))"
proof (cases "type c \<in> {''4'', ''7''}")
  case False
  with assms(1) show ?thesis
    by (auto simp: switch_type_def Let_def split: prod.splits option.splits)
next
  case True
  with assms(2) have "field_number (length_cfg c) \<noteq> PInf"
    by (cases "length_cfg c") auto
  from getRandomString_loop_returns [OF this, of 0 "[]" rng k] obtain s k'
    where "getRandomString (field_number (length_cfg c)) rng k = Some (s, k')"
    by (auto simp: getRandomString_def)
  with True show ?thesis
    by (auto simp: switch_type_def getRandomStringWithPrefix_def)
qed

lemma for_config_returns:
  assumes "\<forall>c\<in>set cfgs. (type c \<in> {''2'', ''3'', ''6''} \<longrightarrow> list c \<noteq> None)
                        \<and> (type c \<in> {''4'', ''7''} \<longrightarrow> length_cfg c \<noteq> Some PInf)"
  shows "\<exists>row' k'. for_config cfgs i row rng k = Some (Inr (row', k'))"
  using assms
proof (induction cfgs arbitrary: row k)
  case Nil
  show ?case by simp
next
  case (Cons c cfgs)
  from Cons.prems have "type c \<in> {''2'', ''3'', ''6''} \<longrightarrow> list c \<noteq> None"
    and "type c \<in> {''4'', ''7''} \<longrightarrow> length_cfg c \<noteq> Some PInf"
    by simp_all
  then obtain row1 k1 where s: "switch_type c i row rng k = Some (Inr (row1, k1))"
    using switch_type_returns by blast
  from Cons.prems
  have "\<forall>c\<in>set cfgs. (type c \<in> {''2'', ''3'', ''6''} \<longrightarrow> list c \<noteq> None)
                      \<and> (type c \<in> {''4'', ''7''} \<longrightarrow> length_cfg c \<noteq> Some PInf)"
    by simp
  from Cons.IH [OF this] obtain row2 k2
    where "for_config cfgs i row1 rng k1 = Some (Inr (row2, k2))"
    by blast
  with s show ?case by simp
qed

lemma for_i_length:
  assumes ok: "\<forall>c\<in>set cfgs. (type c \<in> {''2'', ''3'', ''6''} \<longrightarrow> list c \<noteq> None)
                           \<and> (type c \<in> {''4'', ''7''} \<longrightarrow> length_cfg c \<noteq> Some PInf)"
  shows "i \<le> n \<Longrightarrow>
     \<exists>rows k'. for_i cfgs (Fin (real n)) i acc rng k = Some (Inr (acc @ rows, k'))
                \<and> length rows = n - i"
proof (induction "n - i" arbitrary: i acc k)
  case 0
  then have "i = n" by simp
  then show ?case by (simp add: for_i_stop)
next
  case (Suc d)
  then have lt: "i < n" by simp
  from for_config_returns [OF ok] obtain row k1
    where row: "for_config cfgs i Map.empty rng k = Some (Inr (row, k1))"
    by blast
  have step: "for_i cfgs (Fin (real n)) i acc rng k
                = for_i cfgs (Fin (real n)) (Suc i) (acc @ [row]) rng k1"
    using lt by (intro for_i_step row) simp
  have "d = n - Suc i" and "Suc i \<le> n"
    using Suc.hyps(2) lt by simp_all
  from Suc.hyps(1) [OF this] obtain rows k'
    where rest: "for_i cfgs (Fin (real n)) (Suc i) (acc @ [row]) rng k1
                   = Some (Inr ((acc @ [row]) @ rows, k'))"
      and len: "length rows = n - Suc i"
    by blast
  have "for_i cfgs (Fin (real n)) i acc rng k = Some (Inr (acc @ (row # rows), k'))"
    using step rest by simp
  moreover have "length (row # rows) = n - i"
    using len lt by simp
  ultimately show ?case by blast
qed

text \<open>
  Claim C9, in the form that holds of the code.
  The generation loop never rejects a row count. For a row count
  \<open>\<le> 0\<close> it returns the empty table and consumes no draw. For a whole row count \<open>n\<close> and
  configurations in which every list-based type (\<open>'2'\<close>, \<open>'3'\<close>, \<open>'6'\<close>) has its list and
  no random string (\<open>'4'\<close>, \<open>'7'\<close>) has the length \<open>Infinity\<close>, it returns a table of
  exactly \<open>n\<close> records.
\<close>

theorem row_count:
  "(x \<le> 0 \<longrightarrow> generate cfgs (Fin x) rng k = Some (Inr ([], k)))
   \<and> ((\<forall>c\<in>set cfgs. (type c \<in> {''2'', ''3'', ''6''} \<longrightarrow> list c \<noteq> None)
                     \<and> (type c \<in> {''4'', ''7''} \<longrightarrow> length_cfg c \<noteq> Some PInf)) \<longrightarrow>
        (\<exists>outputData k'. generate cfgs (Fin (real n)) rng k = Some (Inr (outputData, k'))
                         \<and> length outputData = n))"
proof (intro conjI impI)
  assume "x \<le> 0"
  then show "generate cfgs (Fin x) rng k = Some (Inr ([], k))"
    by (simp add: generate_def for_i_stop)
next
  assume "\<forall>c\<in>set cfgs. (type c \<in> {''2'', ''3'', ''6''} \<longrightarrow> list c \<noteq> None)
                      \<and> (type c \<in> {''4'', ''7''} \<longrightarrow> length_cfg c \<noteq> Some PInf)"
  from for_i_length [OF this, of 0 n "[]" rng k]
  show "\<exists>outputData k'. generate cfgs (Fin (real n)) rng k = Some (Inr (outputData, k'))
                         \<and> length outputData = n"
    by (simp add: generate_def)
qed

text \<open>
  The theorem at the row counts \<open>-3\<close> and \<open>4\<close> for a sequential column, a column cycling
  over \<open>["x", "y"]\<close> and a column of random strings of length 2.
\<close>

theorem row_count_witness:
  "generate [sequential_config 1 1,
             \<lparr>header = ''c'', type = ''6'', min_cfg = None, max_cfg = None,
                list = Some [Str ''x'', Str ''y''], length_cfg = None, prefix = None,
                start = None, step = None\<rparr>,
             \<lparr>header = ''s'', type = ''4'', min_cfg = None, max_cfg = None,
                list = None, length_cfg = Some (Fin 2), prefix = None,
                start = None, step = None\<rparr>]
     (Fin (- 3)) (constant_rng (1/2)) 0 = Some (Inr ([], 0))
   \<and> (\<exists>outputData k'.
        generate [sequential_config 1 1,
                  \<lparr>header = ''c'', type = ''6'', min_cfg = None, max_cfg = None,
                     list = Some [Str ''x'', Str ''y''], length_cfg = None, prefix = None,
                     start = None, step = None\<rparr>,
                  \<lparr>header = ''s'', type = ''4'', min_cfg = None, max_cfg = None,
                     list = None, length_cfg = Some (Fin 2), prefix = None,
                     start = None, step = None\<rparr>]
          (Fin 4) (constant_rng (1/2)) 0 = Some (Inr (outputData, k'))
        \<and> length outputData = 4)"
proof -
  let ?cfgs = "[sequential_config 1 1,
             \<lparr>header = ''c'', type = ''6'', min_cfg = None, max_cfg = None,
                list = Some [Str ''x'', Str ''y''], length_cfg = None, prefix = None,
                start = None, step = None\<rparr>,
             \<lparr>header = ''s'', type = ''4'', min_cfg = None, max_cfg = None,
                list = None, length_cfg = Some (Fin 2), prefix = None,
                start = None, step = None\<rparr>]"
  note t = row_count [of "- 3" ?cfgs "constant_rng (1/2)" 0 4]
  have h1: "(- 3 :: real) \<le> 0" by simp
  have h2: "\<forall>c\<in>set ?cfgs. (type c \<in> {''2'', ''3'', ''6''} \<longrightarrow> list c \<noteq> None)
                        \<and> (type c \<in> {''4'', ''7''} \<longrightarrow> length_cfg c \<noteq> Some PInf)"
    by (simp add: sequential_config_def)
  from t [THEN conjunct1, THEN mp, OF h1]
  have a: "generate ?cfgs (Fin (- 3)) (constant_rng (1/2)) 0 = Some (Inr ([], 0))" .
  from t [THEN conjunct2, THEN mp, OF h2]
  have "\<exists>outputData k'. generate ?cfgs (Fin (real 4)) (constant_rng (1/2)) 0
                     = Some (Inr (outputData, k')) \<and> length outputData = 4" .
  then have b: "\<exists>outputData k'. generate ?cfgs (Fin 4) (constant_rng (1/2)) 0
                     = Some (Inr (outputData, k')) \<and> length outputData = 4"
    by simp
  from a b show ?thesis by (rule conjI)
qed

text \<open>
  No error for a row count of \<open>0\<close> or \<open>-3\<close>: the loop body never runs and the result is
  the empty table.
\<close>

theorem row_count_not_rejected_counterexample:
  "generate [\<lparr>header = ''id'', type = ''5'', min_cfg = None, max_cfg = None, list = None,
               length_cfg = None, prefix = None, start = Some (Fin 1), step = Some (Fin 1)\<rparr>]
     (Fin 0) (constant_rng (1/2)) 0 = Some (Inr ([], 0))
   \<and> generate [\<lparr>header = ''id'', type = ''5'', min_cfg = None, max_cfg = None, list = None,
               length_cfg = None, prefix = None, start = Some (Fin 1), step = Some (Fin 1)\<rparr>]
     (Fin (- 3)) (constant_rng (1/2)) 0 = Some (Inr ([], 0))"
  by (simp add: generate_def for_i_stop)

text \<open>
  A random string of length \<open>Infinity\<close> is never finished, so that the first record is
  never completed and generation does not return.
\<close>

lemma row_count_infinite_length_example:
  "generate [\<lparr>header = ''s'', type = ''4'', min_cfg = None, max_cfg = None, list = None,
               length_cfg = Some PInf, prefix = None, start = None, step = None\<rparr>]
     (Fin 1) (constant_rng (1/2)) 0 = None"
proof -
  have "num_less (Fin (real 0)) (Fin 1)"
    by simp
  then show ?thesis
    unfolding generate_def
    by (subst for_i.simps)
       (simp add: switch_type_def getRandomString_def getRandomString_loop_Infinity)
qed

section \<open>The value pool: no duplicates, first-occurrence order\<close>

lemma first_index_append:
  "a \<in> set pre \<Longrightarrow> first_index a (pre @ ys) = first_index a pre"
  by (simp add: first_index_def takeWhile_append1)

lemma first_index_less:
  "a \<in> set pre \<Longrightarrow> first_index a pre < length pre"
  unfolding first_index_def by (induction pre) auto

lemma first_index_new:
  "x \<notin> set pre \<Longrightarrow> first_index x (pre @ [x]) = length pre"
  unfolding first_index_def by (induction pre) auto

lemma Set_of_add:
  assumes "Set_of members seen"
  shows "Set_of (Set_add members x) (seen @ [x])"
proof (cases "x \<in> set members")
  case True
  with assms have x_seen: "x \<in> set seen" by (simp add: Set_of_def)
  have "sorted_wrt (\<lambda>a b. first_index a (seen @ [x]) < first_index b (seen @ [x])) members"
  proof (rule sorted_wrt_mono_rel [of members "\<lambda>a b. first_index a seen < first_index b seen"])
    fix a b assume "a \<in> set members" "b \<in> set members"
      and "first_index a seen < first_index b seen"
    moreover from assms have "set members = set seen" by (simp add: Set_of_def)
    ultimately show "first_index a (seen @ [x]) < first_index b (seen @ [x])"
      by (simp add: first_index_append)
  next
    from assms show "sorted_wrt (\<lambda>a b. first_index a seen < first_index b seen) members"
      by (simp add: Set_of_def)
  qed
  with assms True x_seen show ?thesis
    by (auto simp: Set_of_def Set_add_def)
next
  case False
  from assms have eq: "set members = set seen" by (simp add: Set_of_def)
  with False have x_new: "x \<notin> set seen" by simp
  have old: "sorted_wrt (\<lambda>a b. first_index a (seen @ [x]) < first_index b (seen @ [x])) members"
  proof (rule sorted_wrt_mono_rel [of members "\<lambda>a b. first_index a seen < first_index b seen"])
    fix a b assume "a \<in> set members" "b \<in> set members"
      and "first_index a seen < first_index b seen"
    then show "first_index a (seen @ [x]) < first_index b (seen @ [x])"
      using eq by (simp add: first_index_append)
  next
    from assms show "sorted_wrt (\<lambda>a b. first_index a seen < first_index b seen) members"
      by (simp add: Set_of_def)
  qed
  have last: "\<forall>a\<in>set members. first_index a (seen @ [x]) < first_index x (seen @ [x])"
    using eq x_new by (simp add: first_index_append first_index_new first_index_less)
  from assms False old last eq show ?thesis
    by (auto simp: Set_of_def Set_add_def sorted_wrt_append)
qed

lemma Set_of_foldl:
  "Set_of members seen \<Longrightarrow> Set_of (foldl Set_add members xs) (seen @ xs)"
proof (induction xs arbitrary: members seen)
  case Nil
  then show ?case by simp
next
  case (Cons x xs)
  from Set_of_add [OF Cons.prems] have "Set_of (Set_add members x) (seen @ [x])" .
  from Cons.IH [OF this] show ?case by simp
qed

lemma Set_of_new_Set: "Set_of (new_Set xs) xs"
  using Set_of_foldl [of "[]" "[]" xs] by (simp add: new_Set_def Set_of_def)

text \<open>
  Claim C5. For every sequence of records and every column name,
  \<open>getUniqueValuesFromColumn\<close> returns the values of the column without \<open>undefined\<close>,
  \<open>null\<close> and the empty string, each value once, in the order of their first
  occurrences in the column; the result is empty exactly when the column has no other
  value (the function has no failing path); and for the records
  \<open>[{c:"b"},{c:"a"},{c:"b"},{c:""},{c:"a"}]\<close> and the column \<open>c\<close> it returns
  \<open>["b","a"]\<close>.
\<close>

theorem unique_values_first_occurrence_order:
  "distinct (getUniqueValuesFromColumn records h)
   \<and> set (getUniqueValuesFromColumn records h)
       = set (map (\<lambda>r. property r h) records) - {Undefined, Null, Str ''''}
   \<and> sorted_wrt (\<lambda>a b. first_index a (map (\<lambda>r. property r h) records)
                        < first_index b (map (\<lambda>r. property r h) records))
       (getUniqueValuesFromColumn records h)
   \<and> (getUniqueValuesFromColumn records h = [])
       = (set (map (\<lambda>r. property r h) records) \<subseteq> {Undefined, Null, Str ''''})
   \<and> getUniqueValuesFromColumn
       [[''c'' \<mapsto> Str ''b''], [''c'' \<mapsto> Str ''a''], [''c'' \<mapsto> Str ''b''],
        [''c'' \<mapsto> Str ''''], [''c'' \<mapsto> Str ''a'']] ''c''
     = [Str ''b'', Str ''a'']"
proof -
  let ?col = "map (\<lambda>r. property r h) records"
  let ?res = "getUniqueValuesFromColumn records h"
  have res: "?res = filter (\<lambda>val. val \<noteq> Undefined \<and> val \<noteq> Null \<and> val \<noteq> Str [])
                      (new_Set ?col)"
    by (simp add: getUniqueValuesFromColumn_def)
  have S: "Set_of (new_Set ?col) ?col" by (rule Set_of_new_Set)
  have d: "distinct ?res"
    using S by (simp add: res Set_of_def)
  have s: "set ?res = set ?col - {Undefined, Null, Str ''''}"
    using S unfolding res Set_of_def by auto
  have o: "sorted_wrt (\<lambda>a b. first_index a ?col < first_index b ?col) ?res"
    unfolding res using S by (simp add: Set_of_def sorted_wrt_filter)
  have e: "(?res = []) = (set ?col \<subseteq> {Undefined, Null, Str ''''})"
  proof -
    have "(?res = []) = (set ?res = {})" by simp
    also have "\<dots> = (set ?col \<subseteq> {Undefined, Null, Str ''''})"
      unfolding s by blast
    finally show ?thesis .
  qed
  have x: "getUniqueValuesFromColumn
       [[''c'' \<mapsto> Str ''b''], [''c'' \<mapsto> Str ''a''], [''c'' \<mapsto> Str ''b''],
        [''c'' \<mapsto> Str ''''], [''c'' \<mapsto> Str ''a'']] ''c''
     = [Str ''b'', Str ''a'']"
    by (simp add: getUniqueValuesFromColumn_def new_Set_def Set_add_def property_def)
  from d s o e x show ?thesis by (intro conjI)
qed

text \<open>
  A record without the column reads as \<open>undefined\<close>, which is dropped like \<open>null\<close>; a
  column with no usable value gives the empty pool.
\<close>

lemma unique_values_missing_column_example:
  "getUniqueValuesFromColumn
     [[''c'' \<mapsto> Str ''b''], [''d'' \<mapsto> Str ''z''], [''c'' \<mapsto> Null], [''c'' \<mapsto> Str ''b'']] ''c''
     = [Str ''b'']
   \<and> getUniqueValuesFromColumn [[''d'' \<mapsto> Str ''z''], [''c'' \<mapsto> Str []]] ''c'' = []"
  by (simp add: getUniqueValuesFromColumn_def new_Set_def Set_add_def property_def)

section \<open>Building a configuration\<close>

lemmas StringToNumber_decimal_eval =
  StringToNumber_decimal_def trim_def whitespace_def unsigned_decimal_def
  is_digit_def digits_value_def first_index_def round64_small

lemma pool_1_2_abc_3:
  "getUniqueValuesFromColumn
     [[''c'' \<mapsto> Str ''1''], [''c'' \<mapsto> Str ''2''], [''c'' \<mapsto> Str ''abc''], [''c'' \<mapsto> Str ''3'']]
     ''c'' = [Str ''1'', Str ''2'', Str ''abc'', Str ''3'']"
  by (simp add: getUniqueValuesFromColumn_def new_Set_def Set_add_def property_def)

lemma pool_abc:
  "getUniqueValuesFromColumn [[''c'' \<mapsto> Str ''abc'']] ''c'' = [Str ''abc'']"
  by (simp add: getUniqueValuesFromColumn_def new_Set_def Set_add_def property_def)

lemma configureColumn_numeric_source:
  assumes "generationType ans = ''2''" and "useSource ans"
    and "numericValues = filter (\<lambda>val. \<not> isNaN val)
                           (map (Number StringToNumber) (getUniqueValuesFromColumn records h))"
  shows "configureColumn StringToNumber h records ans
           = (if numericValues = []
              then (\<lparr>header = h, type = ''2'', min_cfg = None, max_cfg = None,
                      list = Some (numericList_filter StringToNumber (numericList ans)),
                      length_cfg = None, prefix = None, start = None, step = None\<rparr>,
                    [''No valid numeric values found in column. Please enter custom values.''])
              else (\<lparr>header = h, type = ''2'', min_cfg = None, max_cfg = None,
                      list = Some (map Num numericValues),
                      length_cfg = None, prefix = None, start = None, step = None\<rparr>,
                    [''Using '' @ show_nat (length numericValues)
                       @ '' unique numeric values from source column.'']))"
  using assms by (simp add: configureColumn_def Let_def)

text \<open>
  Claim C6. When a list of numbers is built from the values of the source (type \<open>'2'\<close>,
  answer "use values from source file"), the value pool of the column is converted with
  \<open>Number\<close> and every entry that converts to \<open>NaN\<close> is dropped; the configuration holds the
  remaining numbers. When none remains, the builder prints
  "No valid numeric values found in column. Please enter custom values." and takes the
  list typed at the prompt instead; it does not fail. For the pool
  \<open>["1","2","abc","3"]\<close> the list is \<open>[1,2,3]\<close>, and for the pool \<open>["abc"]\<close> the custom list
  is taken. The two examples hold for every conversion of text that reads \<open>"1"\<close>, \<open>"2"\<close>,
  \<open>"3"\<close> as these numbers and \<open>"abc"\<close> as \<open>NaN\<close>, as the language's own does.
\<close>

theorem numeric_from_source_values:
  assumes "generationType ans = ''2''" and "useSource ans"
  shows "configureColumn StringToNumber h records ans
           = (let numericValues =
                    filter (\<lambda>val. \<not> isNaN val)
                      (map (Number StringToNumber) (getUniqueValuesFromColumn records h))
              in if numericValues = []
                 then (\<lparr>header = h, type = ''2'', min_cfg = None, max_cfg = None,
                         list = Some (numericList_filter StringToNumber (numericList ans)),
                         length_cfg = None, prefix = None, start = None, step = None\<rparr>,
                       [''No valid numeric values found in column. Please enter custom values.''])
                 else (\<lparr>header = h, type = ''2'', min_cfg = None, max_cfg = None,
                         list = Some (map Num numericValues),
                         length_cfg = None, prefix = None, start = None, step = None\<rparr>,
                       [''Using '' @ show_nat (length numericValues)
                          @ '' unique numeric values from source column.'']))
       \<and> (StringToNumber ''1'' = Fin 1 \<and> StringToNumber ''2'' = Fin 2
            \<and> StringToNumber ''3'' = Fin 3 \<and> StringToNumber ''abc'' = NaN
          \<longrightarrow> list (fst (configureColumn StringToNumber ''c''
                 [[''c'' \<mapsto> Str ''1''], [''c'' \<mapsto> Str ''2''], [''c'' \<mapsto> Str ''abc''],
                  [''c'' \<mapsto> Str ''3'']] ans))
               = Some [Num (Fin 1), Num (Fin 2), Num (Fin 3)])
       \<and> (StringToNumber ''abc'' = NaN
          \<longrightarrow> configureColumn StringToNumber ''c'' [[''c'' \<mapsto> Str ''abc'']] ans
               = (\<lparr>header = ''c'', type = ''2'', min_cfg = None, max_cfg = None,
                    list = Some (numericList_filter StringToNumber (numericList ans)),
                    length_cfg = None, prefix = None, start = None, step = None\<rparr>,
                  [''No valid numeric values found in column. Please enter custom values.'']))"
proof (intro conjI impI)
  show "configureColumn StringToNumber h records ans
           = (let numericValues =
                    filter (\<lambda>val. \<not> isNaN val)
                      (map (Number StringToNumber) (getUniqueValuesFromColumn records h))
              in if numericValues = []
                 then (\<lparr>header = h, type = ''2'', min_cfg = None, max_cfg = None,
                         list = Some (numericList_filter StringToNumber (numericList ans)),
                         length_cfg = None, prefix = None, start = None, step = None\<rparr>,
                       [''No valid numeric values found in column. Please enter custom values.''])
                 else (\<lparr>header = h, type = ''2'', min_cfg = None, max_cfg = None,
                         list = Some (map Num numericValues),
                         length_cfg = None, prefix = None, start = None, step = None\<rparr>,
                       [''Using '' @ show_nat (length numericValues)
                          @ '' unique numeric values from source column.'']))"
    unfolding Let_def by (rule configureColumn_numeric_source [OF assms refl])
next
  assume S: "StringToNumber ''1'' = Fin 1 \<and> StringToNumber ''2'' = Fin 2
            \<and> StringToNumber ''3'' = Fin 3 \<and> StringToNumber ''abc'' = NaN"
  have "filter (\<lambda>val. \<not> isNaN val)
          (map (Number StringToNumber) [Str ''1'', Str ''2'', Str ''abc'', Str ''3''])
          = [Fin 1, Fin 2, Fin 3]"
    using S by (simp add: Number_def)
  then show "list (fst (configureColumn StringToNumber ''c''
                 [[''c'' \<mapsto> Str ''1''], [''c'' \<mapsto> Str ''2''], [''c'' \<mapsto> Str ''abc''],
                  [''c'' \<mapsto> Str ''3'']] ans))
               = Some [Num (Fin 1), Num (Fin 2), Num (Fin 3)]"
    by (simp add: configureColumn_numeric_source [OF assms refl] pool_1_2_abc_3)
next
  assume S: "StringToNumber ''abc'' = NaN"
  have "filter (\<lambda>val. \<not> isNaN val) (map (Number StringToNumber) [Str ''abc'']) = []"
    using S by (simp add: Number_def)
  then show "configureColumn StringToNumber ''c'' [[''c'' \<mapsto> Str ''abc'']] ans
               = (\<lparr>header = ''c'', type = ''2'', min_cfg = None, max_cfg = None,
                    list = Some (numericList_filter StringToNumber (numericList ans)),
                    length_cfg = None, prefix = None, start = None, step = None\<rparr>,
                  [''No valid numeric values found in column. Please enter custom values.''])"
    by (simp add: configureColumn_numeric_source [OF assms refl] pool_abc)
qed

text \<open>
  The theorem with the decimal conversion and the custom entry \<open>4,5\<close>, on both pools.
\<close>

theorem numeric_from_source_values_witness:
  "configureColumn StringToNumber_decimal ''c''
       [[''c'' \<mapsto> Str ''1''], [''c'' \<mapsto> Str ''2''], [''c'' \<mapsto> Str ''abc''], [''c'' \<mapsto> Str ''3'']]
       (list_answers ''2'' True ''4,5'')
     = (\<lparr>header = ''c'', type = ''2'', min_cfg = None, max_cfg = None,
          list = Some [Num (Fin 1), Num (Fin 2), Num (Fin 3)],
          length_cfg = None, prefix = None, start = None, step = None\<rparr>,
        [''Using 3 unique numeric values from source column.''])
   \<and> list (fst (configureColumn StringToNumber_decimal ''c''
       [[''c'' \<mapsto> Str ''1''], [''c'' \<mapsto> Str ''2''], [''c'' \<mapsto> Str ''abc''], [''c'' \<mapsto> Str ''3'']]
       (list_answers ''2'' True ''4,5'')))
     = Some [Num (Fin 1), Num (Fin 2), Num (Fin 3)]
   \<and> configureColumn StringToNumber_decimal ''c'' [[''c'' \<mapsto> Str ''abc'']]
       (list_answers ''2'' True ''4,5'')
     = (\<lparr>header = ''c'', type = ''2'', min_cfg = None, max_cfg = None,
          list = Some [Num (Fin 4), Num (Fin 5)],
          length_cfg = None, prefix = None, start = None, step = None\<rparr>,
        [''No valid numeric values found in column. Please enter custom values.''])"
proof -
  let ?ans = "list_answers ''2'' True ''4,5''"
  let ?recs = "[[''c'' \<mapsto> Str ''1''], [''c'' \<mapsto> Str ''2''], [''c'' \<mapsto> Str ''abc''],
                [''c'' \<mapsto> Str ''3'']]"
  have h1: "generationType ?ans = ''2''" and h2: "useSource ?ans"
    by (simp_all add: list_answers_def)
  have n1: "StringToNumber_decimal ''1'' = Fin 1" and n2: "StringToNumber_decimal ''2'' = Fin 2"
    and n3: "StringToNumber_decimal ''3'' = Fin 3"
    and n4: "StringToNumber_decimal ''4'' = Fin 4" and n5: "StringToNumber_decimal ''5'' = Fin 5"
    and abc: "StringToNumber_decimal ''abc'' = NaN"
    by (simp_all add: StringToNumber_decimal_eval)
  note t = numeric_from_source_values
             [OF h1 h2, of StringToNumber_decimal "''c''" ?recs]
  have three: "show_nat (length [Fin 1, Fin 2, Fin 3]) = ''3''"
    by (simp add: show_nat.simps)
  have nums: "filter (\<lambda>val. \<not> isNaN val)
                (map (Number StringToNumber_decimal) [Str ''1'', Str ''2'', Str ''abc'', Str ''3''])
              = [Fin 1, Fin 2, Fin 3]"
    by (simp add: Number_def n1 n2 n3 abc)
  from t [THEN conjunct1]
  have a: "configureColumn StringToNumber_decimal ''c'' ?recs ?ans
     = (\<lparr>header = ''c'', type = ''2'', min_cfg = None, max_cfg = None,
          list = Some [Num (Fin 1), Num (Fin 2), Num (Fin 3)],
          length_cfg = None, prefix = None, start = None, step = None\<rparr>,
        [''Using 3 unique numeric values from source column.''])"
    unfolding pool_1_2_abc_3 nums Let_def three by simp
  from t [THEN conjunct2, THEN conjunct2, THEN mp, OF abc]
  have b: "configureColumn StringToNumber_decimal ''c'' [[''c'' \<mapsto> Str ''abc'']] ?ans
     = (\<lparr>header = ''c'', type = ''2'', min_cfg = None, max_cfg = None,
          list = Some [Num (Fin 4), Num (Fin 5)],
          length_cfg = None, prefix = None, start = None, step = None\<rparr>,
        [''No valid numeric values found in column. Please enter custom values.''])"
    by (simp add: numericList_filter_def Number_def list_answers_def n4 n5)
  from t [THEN conjunct2, THEN conjunct1, THEN mp, OF conjI [OF n1 conjI [OF n2 conjI [OF n3 abc]]]]
  have c: "list (fst (configureColumn StringToNumber_decimal ''c'' ?recs ?ans))
             = Some [Num (Fin 1), Num (Fin 2), Num (Fin 3)]" .
  from a c b show ?thesis by (intro conjI)
qed

lemma split_not_empty: "split sep s \<noteq> []"
  by (induction s) (auto split: list.splits)

lemma numericList_filter_not_empty: "numericList_filter StringToNumber input \<noteq> []"
  by (simp add: numericList_filter_def split_not_empty)

lemma alphaList_filter_not_empty: "alphaList_filter input \<noteq> []"
  by (simp add: alphaList_filter_def split_not_empty)

text \<open>
  The builder never returns a list without elements: the value pool is taken only when
  it is not empty, and a custom entry split at the commas has at least one piece.
\<close>

lemma configureColumn_list_not_empty:
  assumes "generationType ans \<in> {''2'', ''3'', ''3-source'', ''6''}"
  shows "\<exists>l. list (fst (configureColumn StringToNumber h records ans)) = Some l \<and> l \<noteq> []"
proof -
  let ?pool = "getUniqueValuesFromColumn records h"
  let ?nums = "filter (\<lambda>val. \<not> isNaN val) (map (Number StringToNumber) ?pool)"
  consider (num) "generationType ans = ''2''"
    | (src) "generationType ans = ''3-source''"
    | (alpha) "generationType ans = ''3'' \<or> generationType ans = ''6''"
    using assms by auto
  then show ?thesis
  proof cases
    case num
    show ?thesis
    proof (cases "useSource ans \<and> ?nums \<noteq> []")
      case True
      then show ?thesis using num by (simp add: configureColumn_def Let_def)
    next
      case False
      then have "list (fst (configureColumn StringToNumber h records ans))
                   = Some (numericList_filter StringToNumber (numericList ans))"
        using num by (auto simp: configureColumn_def Let_def)
      then show ?thesis by (simp add: numericList_filter_not_empty)
    qed
  next
    case src
    show ?thesis
    proof (cases "?pool = []")
      case True
      then show ?thesis using src
        by (simp add: configureColumn_def Let_def alphaList_filter_not_empty)
    next
      case False
      then show ?thesis using src by (simp add: configureColumn_def Let_def)
    qed
  next
    case alpha
    show ?thesis
    proof (cases "useSource ans \<and> ?pool \<noteq> []")
      case True
      then show ?thesis using alpha by (auto simp: configureColumn_def Let_def)
    next
      case False
      then have "list (fst (configureColumn StringToNumber h records ans))
                   = Some (alphaList_filter (alphaList ans))"
        using alpha by (auto simp: configureColumn_def Let_def)
      then show ?thesis by (simp add: alphaList_filter_not_empty)
    qed
  qed
qed

text \<open>An empty pool and the custom entry \<open>red, green\<close>: the entry is taken, trimmed.\<close>

lemma empty_pool_custom_list_example:
  "configureColumn StringToNumber_decimal ''c'' [[''c'' \<mapsto> Str []]]
       (list_answers ''6'' True ''red, green'')
     = (\<lparr>header = ''c'', type = ''6'', min_cfg = None, max_cfg = None,
          list = Some [Str ''red'', Str ''green''], length_cfg = None, prefix = None,
          start = None, step = None\<rparr>,
        [''No valid values found in column. Please enter custom values.''])"
  by (simp add: configureColumn_def list_answers_def getUniqueValuesFromColumn_def
        new_Set_def Set_add_def property_def alphaList_filter_def trim_def whitespace_def)


text \<open>
  The generation step does not reject a list without elements either. A saved template
  is passed to the loop as it was read; for a configuration with the list \<open>[]\<close> the
  value generated is \<open>undefined\<close>, for the type \<open>'6'\<close> and, after one draw, for the type
  \<open>'3'\<close>.
\<close>

lemma empty_list_generation_example:
  "switch_type \<lparr>header = ''c'', type = ''6'', min_cfg = None, max_cfg = None,
          list = Some [], length_cfg = None, prefix = None, start = None, step = None\<rparr>
        0 Map.empty (constant_rng (1/2)) 0 = Some (Inr ([''c'' \<mapsto> Undefined], 0))"
  "switch_type \<lparr>header = ''c'', type = ''3'', min_cfg = None, max_cfg = None,
          list = Some [], length_cfg = None, prefix = None, start = None, step = None\<rparr>
        0 Map.empty (constant_rng (1/2)) 0 = Some (Inr ([''c'' \<mapsto> Undefined], 1))"
  by (simp_all add: switch_type_def rem_length_def element_at_def getRandomFromList_def
        Math_random_half round64_small)

text \<open>
  Claim C8, in the form that holds of the code.
  For the choice of a numeric range (type \<open>'1'\<close>) the builder never
  fails: it stores the two answers as \<open>min\<close> and \<open>max\<close> unchanged, whatever their order.
\<close>

theorem numeric_range_bounds_stored_unchecked:
  assumes "generationType ans = ''1''"
  shows "configureColumn StringToNumber h records ans
           = (\<lparr>header = h, type = ''1'',
                min_cfg = Some (rangeAnswer_min ans), max_cfg = Some (rangeAnswer_max ans),
                list = None, length_cfg = None, prefix = None, start = None, step = None\<rparr>,
              [])"
  using assms by (simp add: configureColumn_def)

text \<open>The theorem at the answers 0 and 100.\<close>

theorem numeric_range_bounds_stored_unchecked_witness:
  "configureColumn StringToNumber_decimal ''n'' [[''n'' \<mapsto> Str ''7'']]
       (range_answers (Fin 0) (Fin 100))
     = (\<lparr>header = ''n'', type = ''1'', min_cfg = Some (Fin 0), max_cfg = Some (Fin 100),
          list = None, length_cfg = None, prefix = None, start = None, step = None\<rparr>, [])"
proof -
  have h: "generationType (range_answers (Fin 0) (Fin 100)) = ''1''"
    by (simp add: range_answers_def)
  from numeric_range_bounds_stored_unchecked
         [OF h, of StringToNumber_decimal "''n''" "[[''n'' \<mapsto> Str ''7'']]"]
  show ?thesis by (simp add: range_answers_def)
qed

text \<open>
  The sample 9/10 is cut to the draw \<open>8106479329266892 / 2^53\<close>; with the bounds 10 and 5
  the product \<open>draw * (5 - 10 + 1)\<close> is exact, and its floor is -4.
\<close>

lemma getRandomNumber_10_5:
  "getRandomNumber (Fin 10) (Fin 5) (constant_rng (9/10)) 0 = (Fin 6, Suc 0)"
proof -
  have draw: "Math_random (constant_rng (9/10)) 0 = (Fin (8106479329266892 / 2 ^ 53), Suc 0)"
    by (simp add: Math_random_def constant_rng_def)
  have width: "num_add (num_sub (Fin 5) (Fin 10)) (Fin 1) = Fin (- 4)"
    by (simp add: num_sub_def round64_small)
  have "round64 (of_int (- 8106479329266892) / 2 ^ 51)
          = Fin (of_int (- 8106479329266892) / 2 ^ 51)"
    by (rule round64_dyadic) simp_all
  then have product: "num_mul (Fin (8106479329266892 / 2 ^ 53)) (Fin (- 4))
                        = Fin (- 8106479329266892 / 2 ^ 51)"
    by simp
  have floor: "Math_floor (Fin (- 8106479329266892 / 2 ^ 51)) = Fin (- 4)"
    by simp
  show ?thesis
    unfolding getRandomNumber_def draw prod.case Let_def width product floor
    by (simp add: round64_small)
qed

text \<open>
  With the answers \<open>min = 10\<close> and \<open>max = 5\<close> the builder returns a configuration with
  \<open>min > max\<close>, and generation accepts it: with the sample 9/10 the value is
  \<open>floor(draw * (5 - 10 + 1)) + 10 = 6\<close>.
\<close>

theorem inverted_range_accepted_counterexample:
  "configureColumn StringToNumber_decimal ''n'' [[''n'' \<mapsto> Str ''7'']]
       (range_answers (Fin 10) (Fin 5))
     = (\<lparr>header = ''n'', type = ''1'', min_cfg = Some (Fin 10), max_cfg = Some (Fin 5),
          list = None, length_cfg = None, prefix = None, start = None, step = None\<rparr>, [])
   \<and> \<not> ((10::real) \<le> 5)
   \<and> generate [fst (configureColumn StringToNumber_decimal ''n'' [[''n'' \<mapsto> Str ''7'']]
                      (range_answers (Fin 10) (Fin 5)))]
         (Fin 1) (constant_rng (9/10)) 0
       = Some (Inr ([[''n'' \<mapsto> Num (Fin 6)]], 1))"
proof -
  let ?cfg = "\<lparr>header = ''n'', type = ''1'', min_cfg = Some (Fin 10), max_cfg = Some (Fin 5),
          list = None, length_cfg = None, prefix = None, start = None, step = None\<rparr>"
  have built: "configureColumn StringToNumber_decimal ''n'' [[''n'' \<mapsto> Str ''7'']]
       (range_answers (Fin 10) (Fin 5)) = (?cfg, [])"
    by (simp add: configureColumn_def range_answers_def)
  have row: "for_config [?cfg] 0 Map.empty (constant_rng (9/10)) 0
               = Some (Inr ([''n'' \<mapsto> Num (Fin 6)], 1))"
    by (simp add: switch_type_def getRandomNumber_10_5)
  have "for_i [?cfg] (Fin 1) 0 [] (constant_rng (9/10)) 0
          = for_i [?cfg] (Fin 1) (Suc 0) ([] @ [[''n'' \<mapsto> Num (Fin 6)]]) (constant_rng (9/10)) 1"
    by (rule for_i_step [OF _ row]) simp
  also have "\<dots> = Some (Inr ([] @ [[''n'' \<mapsto> Num (Fin 6)]], 1))"
    by (rule for_i_stop) simp
  finally have gen: "generate [?cfg] (Fin 1) (constant_rng (9/10)) 0
                       = Some (Inr ([[''n'' \<mapsto> Num (Fin 6)]], 1))"
    by (simp add: generate_def)
  show ?thesis unfolding built using gen by simp
qed

end
